theory Spec2Isabelle
  imports Complex_Main "HOL-Library.List_Lexorder" "HOL-Library.Product_Lexorder"
begin

section \<open>Data model\<close>

text \<open>
  The exceptions the modelled Python code can raise.
\<close>

datatype error = KeyError | ValueError | ZeroDivisionError | RuntimeError

text \<open>
  The columns of the voxel frames handled by \<^verbatim>\<open>voxelutil.py\<close>: the three integer
  voxel coordinates and the three face-count columns written by the scanner.  The
  temporary columns \<^verbatim>\<open>x_diff\<close>, \<^verbatim>\<open>y_diff\<close>, \<^verbatim>\<open>z_diff\<close> live only inside one
  iteration of \<^verbatim>\<open>scan_faces_1d\<close> and are modelled there as a separate list.
\<close>

datatype column = X_vox | Y_vox | Z_vox | X_faces | Y_faces | Z_faces

record voxel =
  x_vox :: int
  y_vox :: int
  z_vox :: int
  x_faces :: int
  y_faces :: int
  z_faces :: int

text \<open>\<^verbatim>\<open>row[col]\<close> and \<^verbatim>\<open>row[col] = v\<close>.\<close>

fun cell :: "voxel \<Rightarrow> column \<Rightarrow> int" where
  "cell r X_vox = x_vox r"
| "cell r Y_vox = y_vox r"
| "cell r Z_vox = z_vox r"
| "cell r X_faces = x_faces r"
| "cell r Y_faces = y_faces r"
| "cell r Z_faces = z_faces r"

fun assign :: "column \<Rightarrow> int \<Rightarrow> voxel \<Rightarrow> voxel" where
  "assign X_vox v r = r\<lparr>x_vox := v\<rparr>"
| "assign Y_vox v r = r\<lparr>y_vox := v\<rparr>"
| "assign Z_vox v r = r\<lparr>z_vox := v\<rparr>"
| "assign X_faces v r = r\<lparr>x_faces := v\<rparr>"
| "assign Y_faces v r = r\<lparr>y_faces := v\<rparr>"
| "assign Z_faces v r = r\<lparr>z_faces := v\<rparr>"

text \<open>
  A pandas frame of voxels.  \<open>EmptyFrame\<close> is \<^verbatim>\<open>pd.DataFrame()\<close>: no rows and no
  columns at all, so that selecting or grouping by a column raises \<^verbatim>\<open>KeyError\<close>.
  \<open>Frame rs\<close> has the voxel columns and the rows \<open>rs\<close> in index order (possibly none).
  A face column that has not been written yet holds 0 in the record; no function
  below reads a face column before the pass that writes it.
\<close>

datatype data_frame = EmptyFrame | Frame "voxel list"

text \<open>\<^verbatim>\<open>pd.concat([scanned, locs_group], ignore_index=True)\<close> for a group with rows.\<close>

fun concat_frame :: "data_frame \<Rightarrow> voxel list \<Rightarrow> data_frame" where
  "concat_frame EmptyFrame g = Frame g"
| "concat_frame (Frame rs) g = Frame (rs @ g)"

section \<open>Face-exposure scanner (\<^verbatim>\<open>voxelutil.py\<close>)\<close>

text \<open>
  \<^verbatim>\<open>Series.diff()\<close> followed by \<^verbatim>\<open>fillna(0)\<close>: entry 0 is 0, entry \<open>i > 0\<close> is
  \<open>v\<^sub>i - v\<^sub>i\<^sub>-\<^sub>1\<close>.
\<close>

fun diff_tail :: "int list \<Rightarrow> int list" where
  "diff_tail (a # b # vs) = (b - a) # diff_tail (b # vs)"
| "diff_tail vs = []"

definition series_diff :: "int list \<Rightarrow> int list" where
  "series_diff vs = (if vs = [] then [] else 0 # diff_tail vs)"

text \<open>
  One iteration of the \<^verbatim>\<open>iterrows\<close> loop of \<^verbatim>\<open>scan_faces_1d\<close>, on the face column
  \<open>face\<close> of the group, for the row with index \<open>index\<close>.  The three \<^verbatim>\<open>if\<close>s run in
  the order of the source.  The write to \<open>index - 1\<close> is only reached for \<open>index > 0\<close>,
  because entry 0 of the difference column is 0.
\<close>

definition face_loop_body :: "int list \<Rightarrow> nat \<Rightarrow> int list \<Rightarrow> int list" where
  "face_loop_body diff index face =
     (let face1 = (if index = 0 then face[index := 1] else face);
          face2 = (if diff ! index > 1
                   then (let f = face1[index - 1 := face1 ! (index - 1) + 1]
                         in f[index := f ! index + 1])
                   else face1);
          face3 = (if index = length face - 1
                   then face2[index := face2 ! index + 1]
                   else face2)
      in face3)"

text \<open>The whole loop over the rows of one group, starting from the all-zero face column.\<close>

definition face_loop :: "int list \<Rightarrow> int list" where
  "face_loop diff = fold (face_loop_body diff) [0..<length diff] (replicate (length diff) 0)"

text \<open>
  The body of the \<^verbatim>\<open>groupby\<close> loop of \<^verbatim>\<open>scan_faces_1d\<close> for one group (one column of
  voxels): sort by the scan axis, reset the index, compute the differences, run the
  face loop and store the face column.  \<^verbatim>\<open>sort_values\<close> is modelled by the stable
  insertion sort \<open>sort_key\<close>; on a deduplicated grid the scan-axis values of a group
  are pairwise different and every sort gives the same order.
\<close>

definition scan_group :: "column \<Rightarrow> column \<Rightarrow> voxel list \<Rightarrow> voxel list" where
  "scan_group axis face_col locs_group =
     (let sorted_group = sort_key (\<lambda>r. cell r axis) locs_group;
          diff = series_diff (map (\<lambda>r. cell r axis) sorted_group);
          face = face_loop diff
      in map2 (assign face_col) face sorted_group)"

text \<open>
  \<^verbatim>\<open>df.groupby(key)\<close>: the group keys in ascending order, and with each key the
  rows of the frame that carry it, in frame order.  No group is empty.
\<close>

definition groupby :: "('a \<Rightarrow> 'k::linorder) \<Rightarrow> 'a list \<Rightarrow> ('k \<times> 'a list) list" where
  "groupby key rs =
     map (\<lambda>k. (k, filter (\<lambda>r. key r = k) rs)) (sort (remdups (map key rs)))"

text \<open>The key of a row for \<^verbatim>\<open>groupby(fixed_columns)\<close>; lists are ordered lexicographically.\<close>

definition group_key :: "column list \<Rightarrow> voxel \<Rightarrow> int list" where
  "group_key fixed_columns r = map (cell r) fixed_columns"

text \<open>
  \<^verbatim>\<open>scan_faces_1d\<close>.  Grouping a frame without columns raises \<^verbatim>\<open>KeyError\<close>.  The
  result starts as \<^verbatim>\<open>pd.DataFrame()\<close> and every scanned group is appended to it, so
  a frame with columns but no rows comes back as the frame without columns.
\<close>

definition scan_faces_1d :: "data_frame \<Rightarrow> column \<Rightarrow> column list \<Rightarrow> column \<Rightarrow> error + data_frame" where
  "scan_faces_1d df axis fixed_columns face_col =
     (case df of
        EmptyFrame \<Rightarrow> Inl KeyError
      | Frame rs \<Rightarrow>
          Inr (fold (\<lambda>(k, locs_group) scanned.
                        concat_frame scanned (scan_group axis face_col locs_group))
                 (groupby (group_key fixed_columns) rs) EmptyFrame))"

text \<open>\<^verbatim>\<open>scan_faces\<close>: the axis is one of the three coordinate columns.\<close>

definition scan_faces :: "data_frame \<Rightarrow> column \<Rightarrow> error + data_frame" where
  "scan_faces df axis =
     (let (fixed_columns, face_col) =
            (if axis = X_vox then ([Y_vox, Z_vox], X_faces)
             else if axis = Y_vox then ([X_vox, Z_vox], Y_faces)
             else ([X_vox, Y_vox], Z_faces))
      in scan_faces_1d df axis fixed_columns face_col)"

text \<open>\<^verbatim>\<open>scan_faces_all\<close>: the three passes in sequence; an exception ends the call.\<close>

definition scan_faces_all :: "data_frame \<Rightarrow> error + data_frame" where
  "scan_faces_all df =
     (case scan_faces df X_vox of
        Inl e \<Rightarrow> Inl e
      | Inr scanned1 \<Rightarrow>
          (case scan_faces scanned1 Y_vox of
             Inl e \<Rightarrow> Inl e
           | Inr scanned2 \<Rightarrow> scan_faces scanned2 Z_vox))"

text \<open>
  \<^verbatim>\<open>auto_origin_df\<close>: every coordinate column minus its minimum plus 1.  On a frame
  without rows the minimum is NaN and the columns stay empty.
\<close>

definition auto_origin_df :: "voxel list \<Rightarrow> voxel list" where
  "auto_origin_df df =
     (if df = [] then []
      else let x_min = Min (set (map x_vox df));
               y_min = Min (set (map y_vox df));
               z_min = Min (set (map z_vox df))
           in map (\<lambda>r. r\<lparr>x_vox := x_vox r - x_min + 1,
                          y_vox := y_vox r - y_min + 1,
                          z_vox := z_vox r - z_min + 1\<rparr>) df)"

section \<open>Voxelization (\<^verbatim>\<open>locsutil.py\<close>)\<close>

text \<open>
  A localization: the columns \<^verbatim>\<open>x_nm\<close>, \<^verbatim>\<open>y_nm\<close>, \<^verbatim>\<open>z\<close> (here \<open>z_nm\<close>), \<^verbatim>\<open>id\<close>
  (here \<open>decode_id\<close>) and \<^verbatim>\<open>hdbscan\<close>.  The coordinates are finite floats, read as the
  rational numbers they denote.
\<close>

record loc =
  x_nm :: rat
  y_nm :: rat
  z_nm :: rat
  decode_id :: int
  hdbscan :: int

text \<open>
  The float that \<^verbatim>\<open>//\<close> returns: a whole number, or a non-finite value (inf or nan)
  when the divisor is 0; numpy does not raise there.
\<close>

datatype floor_result = Whole int | NonFinite

definition floor_divide :: "rat \<Rightarrow> rat \<Rightarrow> floor_result" where
  "floor_divide a b = (if b = 0 then NonFinite else Whole \<lfloor>a / b\<rfloor>)"

text \<open>A voxelized localization: the localization with its float columns
  \<^verbatim>\<open>x_vox\<close>, \<^verbatim>\<open>y_vox\<close>, \<^verbatim>\<open>z_vox\<close> (here \<open>x_bin\<close>, \<open>y_bin\<close>, \<open>z_bin\<close>).\<close>

record voxelized = loc +
  x_bin :: floor_result
  y_bin :: floor_result
  z_bin :: floor_result

definition voxelize :: "loc list \<Rightarrow> rat \<Rightarrow> rat \<Rightarrow> voxelized list" where
  "voxelize locs_data bin_xy bin_z =
     map (\<lambda>p. loc.extend p
                 \<lparr>x_bin = floor_divide (x_nm p) bin_xy,
                  y_bin = floor_divide (y_nm p) bin_xy,
                  z_bin = floor_divide (z_nm p) bin_z\<rparr>) locs_data"

section \<open>Counting exposed faces (\<^verbatim>\<open>voxelutil.py\<close>)\<close>

text \<open>
  \<^verbatim>\<open>df[~df.duplicated(subset=...)]\<close>: a row stays unless an earlier row has the same
  key; \<open>seen\<close> holds the keys of the earlier rows.
\<close>

fun not_duplicated :: "('a \<Rightarrow> 'k) \<Rightarrow> 'k list \<Rightarrow> 'a list \<Rightarrow> 'a list" where
  "not_duplicated key seen [] = []"
| "not_duplicated key seen (r # rs) =
     (if key r \<in> set seen then not_duplicated key seen rs
      else r # not_duplicated key (key r # seen) rs)"

definition bin_triple :: "voxelized \<Rightarrow> floor_result \<times> floor_result \<times> floor_result" where
  "bin_triple r = (x_bin r, y_bin r, z_bin r)"

text \<open>
  \<^verbatim>\<open>locs_group[['x_vox', 'y_vox', 'z_vox']].astype('int')\<close>: the three coordinate
  columns as integers.  pandas raises a \<^verbatim>\<open>ValueError\<close> when a value is not finite.
\<close>

definition new_voxel :: "int \<Rightarrow> int \<Rightarrow> int \<Rightarrow> voxel" where
  "new_voxel x y z =
     \<lparr>x_vox = x, y_vox = y, z_vox = z, x_faces = 0, y_faces = 0, z_faces = 0\<rparr>"

fun astype_int :: "voxelized list \<Rightarrow> error + voxel list" where
  "astype_int [] = Inr []"
| "astype_int (r # rs) =
     (case (x_bin r, y_bin r, z_bin r) of
        (Whole x, Whole y, Whole z) \<Rightarrow>
          (case astype_int rs of
             Inl e \<Rightarrow> Inl e
           | Inr vs \<Rightarrow> Inr (new_voxel x y z # vs))
      | _ \<Rightarrow> Inl ValueError)"

text \<open>
  The first three statements of \<^verbatim>\<open>count_exposed_faces\<close>: drop duplicated voxels,
  convert to integers, move the origin.  This is the voxel grid handed to the scanner.
\<close>

definition voxel_grid :: "voxelized list \<Rightarrow> error + voxel list" where
  "voxel_grid locs_group =
     (case astype_int (not_duplicated bin_triple [] locs_group) of
        Inl e \<Rightarrow> Inl e
      | Inr vs \<Rightarrow> Inr (auto_origin_df vs))"

text \<open>The derived columns \<^verbatim>\<open>xy_faces\<close> and \<^verbatim>\<open>total_faces\<close> of \<^verbatim>\<open>out_data\<close>.\<close>

definition xy_faces :: "voxel \<Rightarrow> int" where
  "xy_faces r = x_faces r + y_faces r"

definition total_faces :: "voxel \<Rightarrow> int" where
  "total_faces r = x_faces r + y_faces r + z_faces r"

text \<open>
  \<^verbatim>\<open>count_exposed_faces\<close>: returns \<^verbatim>\<open>out_data\<close>, \<^verbatim>\<open>total_vox\<close>, \<^verbatim>\<open>surf_vox\<close>,
  the sum of \<^verbatim>\<open>xy_faces\<close> and the sum of \<^verbatim>\<open>z_faces\<close>.  Reading a face column of a
  frame without columns raises \<^verbatim>\<open>KeyError\<close>.
\<close>

definition count_exposed_faces ::
    "voxelized list \<Rightarrow> error + (voxel list \<times> int \<times> int \<times> int \<times> int)" where
  "count_exposed_faces locs_group =
     (case voxel_grid locs_group of
        Inl e \<Rightarrow> Inl e
      | Inr grid \<Rightarrow>
          (case scan_faces_all (Frame grid) of
             Inl e \<Rightarrow> Inl e
           | Inr EmptyFrame \<Rightarrow> Inl KeyError
           | Inr (Frame out_data) \<Rightarrow>
               Inr (out_data,
                    int (length out_data),
                    int (length (filter (\<lambda>r. total_faces r \<noteq> 0) out_data)),
                    sum_list (map xy_faces out_data),
                    sum_list (map z_faces out_data))))"

section \<open>Multi-scale sweep (\<^verbatim>\<open>voxelscan.py\<close>)\<close>

text \<open>
  Python's \<^verbatim>\<open>range(start, stop, step)\<close>, with the length computed as CPython does;
  a zero step raises \<^verbatim>\<open>ValueError\<close>.
\<close>

definition range_length :: "int \<Rightarrow> int \<Rightarrow> int \<Rightarrow> nat" where
  "range_length lo hi step = (if lo < hi then nat ((hi - lo - 1) div step + 1) else 0)"

definition py_range :: "int \<Rightarrow> int \<Rightarrow> int \<Rightarrow> error + int list" where
  "py_range start stop step =
     (if step = 0 then Inl ValueError
      else let n = (if step > 0 then range_length start stop step
                    else range_length stop start (- step))
           in Inr (map (\<lambda>i. start + int i * step) [0..<n]))"

text \<open>
  The value of \<^verbatim>\<open>total_surf / (total_vol ** (2 / 3))\<close>: a real number for a positive
  volume; for volume 0 the divisor is 0.0 and numpy returns a non-finite float; for a
  negative volume the power is a complex number.
\<close>

datatype stov_value = Stov real | StovNonFinite | StovComplex

definition normalized_stov :: "int \<Rightarrow> int \<Rightarrow> stov_value" where
  "normalized_stov total_surf total_vol =
     (if total_vol > 0 then Stov (real_of_int total_surf / (real_of_int total_vol powr (2 / 3)))
      else if total_vol = 0 then StovNonFinite
      else StovComplex)"

text \<open>
  The body of the loop of \<^verbatim>\<open>voxel_scan\<close> for one bin size: the values appended to
  \<^verbatim>\<open>vol_list\<close>, \<^verbatim>\<open>surf_list\<close>, \<^verbatim>\<open>stov_list\<close> and \<^verbatim>\<open>core_ratio_list\<close>.  The division
  of the core ratio is between Python integers and raises \<^verbatim>\<open>ZeroDivisionError\<close> on 0.
\<close>

definition scan_bin :: "loc list \<Rightarrow> int \<Rightarrow> error + (int \<times> int \<times> stov_value \<times> rat)" where
  "scan_bin locs bin =
     (case count_exposed_faces (voxelize locs (of_int bin) (of_int bin)) of
        Inl e \<Rightarrow> Inl e
      | Inr (calculated, total_vox, surf_vox, xy_faces_sum, z_faces_sum) \<Rightarrow>
          (let total_vol = total_vox * bin ^ 3;
               total_surf = (xy_faces_sum + z_faces_sum) * bin ^ 2;
               stov = normalized_stov total_surf total_vol
           in if total_vox = 0 then Inl ZeroDivisionError
              else Inr (total_vol, total_surf, stov,
                        of_int (total_vox - surf_vox) / of_int total_vox)))"

text \<open>The five result lists of \<^verbatim>\<open>voxel_scan\<close>, in the order they are returned.\<close>

type_synonym scan_lists = "int list \<times> int list \<times> int list \<times> stov_value list \<times> rat list"

fun voxel_scan_loop :: "loc list \<Rightarrow> int list \<Rightarrow> scan_lists \<Rightarrow> error + scan_lists" where
  "voxel_scan_loop locs [] acc = Inr acc"
| "voxel_scan_loop locs (bin # bins)
       (bin_list, vol_list, surf_list, stov_list, core_ratio_list) =
     (case scan_bin locs bin of
        Inl e \<Rightarrow> Inl e
      | Inr (total_vol, total_surf, stov, core_ratio) \<Rightarrow>
          voxel_scan_loop locs bins
            (bin_list @ [bin], vol_list @ [total_vol], surf_list @ [total_surf],
             stov_list @ [stov], core_ratio_list @ [core_ratio]))"

definition voxel_scan :: "loc list \<Rightarrow> int \<Rightarrow> int \<Rightarrow> int \<Rightarrow> error + scan_lists" where
  "voxel_scan locs bin_min bin_max step =
     (case py_range bin_min bin_max step of
        Inl e \<Rightarrow> Inl e
      | Inr bins \<Rightarrow> voxel_scan_loop locs bins ([], [], [], [], []))"

text \<open>
  \<^verbatim>\<open>np.median\<close> of a non-empty list of integers.
\<close>

definition median :: "int list \<Rightarrow> rat" where
  "median xs =
     (let s = sort xs; n = length xs
      in if even n then (of_int (s ! (n div 2 - 1)) + of_int (s ! (n div 2))) / 2
         else of_int (s ! (n div 2)))"

text \<open>
  \<^verbatim>\<open>fit_sigmoid\<close>.  The least-squares solver \<^verbatim>\<open>scipy.optimize.curve_fit\<close> for the
  sigmoid model is a parameter \<open>curve_fit\<close>: it gets the samples and the initial
  guess and returns the fitted parameters or raises, \<^verbatim>\<open>RuntimeError\<close> when the fit
  does not converge.  \<^verbatim>\<open>max\<close> of an empty list raises \<^verbatim>\<open>ValueError\<close>.
\<close>

type_synonym 'p solver = "int list \<Rightarrow> rat list \<Rightarrow> rat \<times> rat \<times> rat \<Rightarrow> error + 'p"

definition fit_sigmoid :: "'p solver \<Rightarrow> int list \<Rightarrow> rat list \<Rightarrow> error + 'p" where
  "fit_sigmoid curve_fit xs ys =
     (if ys = [] then Inl ValueError
      else curve_fit xs ys (Max (set ys), median xs, 1))"

text \<open>
  The nine lists that \<^verbatim>\<open>_analyze_vox\<close> fills, one entry per analyzed cluster.  The
  source joins the per-bin lists of a cluster into a string; here they stay lists.
\<close>

record 'p vox_columns =
  col_id :: "int list"
  col_total_locs :: "nat list"
  col_clusters :: "nat list"
  col_vox_bins :: "int list list"
  col_total_vol :: "int list list"
  col_total_surf :: "int list list"
  col_s_to_v :: "stov_value list list"
  col_core_ratios :: "rat list list"
  col_sigmoid_params :: "'p list"

definition no_columns :: "'p vox_columns" where
  "no_columns =
     \<lparr>col_id = [], col_total_locs = [], col_clusters = [], col_vox_bins = [],
      col_total_vol = [], col_total_surf = [], col_s_to_v = [], col_core_ratios = [],
      col_sigmoid_params = []\<rparr>"

text \<open>
  One iteration of the \<^verbatim>\<open>groupby('id')\<close> loop of \<^verbatim>\<open>_analyze_vox\<close>.  A cluster below
  the cutoff is skipped.  An exception of \<^verbatim>\<open>voxel_scan\<close> leaves the function.  A
  \<^verbatim>\<open>RuntimeError\<close> of the fit is caught and a message printed: nothing is appended
  to \<^verbatim>\<open>params\<close>; any other exception of the fit leaves the function.
\<close>

definition analyze_group ::
    "'p solver \<Rightarrow> int \<Rightarrow> int \<Rightarrow> int \<Rightarrow> int \<Rightarrow> int \<times> loc list \<Rightarrow> 'p vox_columns
       \<Rightarrow> error + 'p vox_columns" where
  "analyze_group curve_fit bin_min bin_max step cutoff g cols =
     (case g of (i, locs_group) \<Rightarrow>
        if int (length locs_group) < cutoff then Inr cols
        else
          (case voxel_scan locs_group bin_min bin_max step of
             Inl e \<Rightarrow> Inl e
           | Inr (bin_list, vol_list, surf_list, stov_list, core_ratio_list) \<Rightarrow>
               (let cols1 = cols\<lparr>col_id := col_id cols @ [i],
                        col_total_locs := col_total_locs cols @ [length locs_group],
                        col_clusters := col_clusters cols
                                          @ [length (remdups (map hdbscan locs_group))],
                        col_vox_bins := col_vox_bins cols @ [bin_list],
                        col_total_vol := col_total_vol cols @ [vol_list],
                        col_total_surf := col_total_surf cols @ [surf_list],
                        col_s_to_v := col_s_to_v cols @ [stov_list],
                        col_core_ratios := col_core_ratios cols @ [core_ratio_list]\<rparr>
                in case fit_sigmoid curve_fit bin_list core_ratio_list of
                     Inr popt \<Rightarrow>
                       Inr (cols1\<lparr>col_sigmoid_params := col_sigmoid_params cols1 @ [popt]\<rparr>)
                   | Inl RuntimeError \<Rightarrow> Inr cols1
                   | Inl e \<Rightarrow> Inl e)))"

fun analyze_groups ::
    "'p solver \<Rightarrow> int \<Rightarrow> int \<Rightarrow> int \<Rightarrow> int \<Rightarrow> (int \<times> loc list) list \<Rightarrow> 'p vox_columns
       \<Rightarrow> error + 'p vox_columns" where
  "analyze_groups curve_fit bin_min bin_max step cutoff [] cols = Inr cols"
| "analyze_groups curve_fit bin_min bin_max step cutoff (g # gs) cols =
     (case analyze_group curve_fit bin_min bin_max step cutoff g cols of
        Inl e \<Rightarrow> Inl e
      | Inr cols1 \<Rightarrow> analyze_groups curve_fit bin_min bin_max step cutoff gs cols1)"

text \<open>
  \<^verbatim>\<open>pd.DataFrame(data={...})\<close> on the nine lists: pandas raises \<^verbatim>\<open>ValueError\<close>
  unless all lists have the same length, which is then the number of rows.
\<close>

definition same_lengths :: "'p vox_columns \<Rightarrow> bool" where
  "same_lengths cols =
     (let n = length (col_id cols)
      in length (col_total_locs cols) = n \<and> length (col_clusters cols) = n
         \<and> length (col_vox_bins cols) = n \<and> length (col_total_vol cols) = n
         \<and> length (col_total_surf cols) = n \<and> length (col_s_to_v cols) = n
         \<and> length (col_core_ratios cols) = n \<and> length (col_sigmoid_params cols) = n)"

definition data_frame_of :: "'p vox_columns \<Rightarrow> error + 'p vox_columns" where
  "data_frame_of cols = (if same_lengths cols then Inr cols else Inl ValueError)"

text \<open>\<^verbatim>\<open>_analyze_vox\<close>: the table of one file, or the exception that ends the call.\<close>

definition analyze_vox_table ::
    "'p solver \<Rightarrow> loc list \<Rightarrow> int \<Rightarrow> int \<Rightarrow> int \<Rightarrow> int \<Rightarrow> error + 'p vox_columns" where
  "analyze_vox_table curve_fit locs bin_min bin_max step cutoff =
     (case analyze_groups curve_fit bin_min bin_max step cutoff
             (groupby decode_id locs) no_columns of
        Inl e \<Rightarrow> Inl e
      | Inr cols \<Rightarrow> data_frame_of cols)"

section \<open>Cluster geometry (\<^verbatim>\<open>analyze.py\<close>)\<close>







section \<open>Notions of the specification\<close>

text \<open>
  The columns that \<^verbatim>\<open>scan_faces\<close> hands to \<^verbatim>\<open>scan_faces_1d\<close> for an axis.
\<close>

definition fixed_columns_of :: "column \<Rightarrow> column list" where
  "fixed_columns_of axis =
     (if axis = X_vox then [Y_vox, Z_vox]
      else if axis = Y_vox then [X_vox, Z_vox]
      else [X_vox, Y_vox])"

definition face_col_of :: "column \<Rightarrow> column" where
  "face_col_of axis =
     (if axis = X_vox then X_faces else if axis = Y_vox then Y_faces else Z_faces)"

text \<open>The frame built from a list of rows by appending groups to \<^verbatim>\<open>pd.DataFrame()\<close>.\<close>

definition frame_of :: "voxel list \<Rightarrow> data_frame" where
  "frame_of rs = (if rs = [] then EmptyFrame else Frame rs)"

text \<open>The rows that one pass of the scanner produces: the scanned groups in key order.\<close>

definition scan_rows :: "column \<Rightarrow> column list \<Rightarrow> column \<Rightarrow> voxel list \<Rightarrow> voxel list" where
  "scan_rows axis fixed_columns face_col rs =
     concat (map (\<lambda>(k, g). scan_group axis face_col g) (groupby (group_key fixed_columns) rs))"

text \<open>
  The rule of the specification for one column, given the scan-axis coordinates \<open>vs\<close>
  of its voxels in ascending order: the first voxel gets one exposed face, the last
  voxel gets one, and every adjacent pair further apart than 1 gives one to each of
  its two voxels.
\<close>

definition column_rule :: "int list \<Rightarrow> nat \<Rightarrow> int" where
  "column_rule vs i =
     (if i = 0 then 1 else 0) + (if i = length vs - 1 then 1 else 0)
     + (if 0 < i \<and> vs ! i - vs ! (i - 1) > 1 then 1 else 0)
     + (if i + 1 < length vs \<and> vs ! (i + 1) - vs ! i > 1 then 1 else 0)"

text \<open>
  Exposure along one axis, for the set \<open>V\<close> of occupied positions of a column: a face
  is exposed when the neighbouring position is not occupied.
\<close>

definition exposure :: "int set \<Rightarrow> int \<Rightarrow> int" where
  "exposure V v = (if v - 1 \<in> V then 0 else 1) + (if v + 1 \<in> V then 0 else 1)"

text \<open>The position of a voxel in the lattice.\<close>

definition coords :: "voxel \<Rightarrow> int \<times> int \<times> int" where
  "coords r = (x_vox r, y_vox r, z_vox r)"

text \<open>The three scan axes.\<close>

definition is_axis :: "column \<Rightarrow> bool" where
  "is_axis axis \<longleftrightarrow> axis = X_vox \<or> axis = Y_vox \<or> axis = Z_vox"

text \<open>The lattice position at distance \<open>d\<close> along an axis.\<close>

fun neighbour :: "column \<Rightarrow> int \<Rightarrow> int \<times> int \<times> int \<Rightarrow> int \<times> int \<times> int" where
  "neighbour axis d (x, y, z) =
     (if axis = X_vox then (x + d, y, z)
      else if axis = Y_vox then (x, y + d, z)
      else (x, y, z + d))"

text \<open>
  The glossary's exposed faces: the number of faces of the voxel at \<open>c\<close> along an axis
  that have no occupied neighbour across them, for the set \<open>S\<close> of occupied positions.
\<close>

definition exposed_faces :: "(int \<times> int \<times> int) set \<Rightarrow> column \<Rightarrow> int \<times> int \<times> int \<Rightarrow> int" where
  "exposed_faces S axis c =
     (if neighbour axis (- 1) c \<in> S then 0 else 1) + (if neighbour axis 1 c \<in> S then 0 else 1)"

text \<open>The row of the voxel at \<open>c\<close> with its three exposed-face counts.\<close>

definition exposed_voxel :: "(int \<times> int \<times> int) set \<Rightarrow> int \<times> int \<times> int \<Rightarrow> voxel" where
  "exposed_voxel S c =
     (case c of (x, y, z) \<Rightarrow>
        \<lparr>x_vox = x, y_vox = y, z_vox = z,
         x_faces = exposed_faces S X_vox c,
         y_faces = exposed_faces S Y_vox c,
         z_faces = exposed_faces S Z_vox c\<rparr>)"

text \<open>The rows after the three passes of \<^verbatim>\<open>scan_faces_all\<close>.\<close>

definition scan_all_rows :: "voxel list \<Rightarrow> voxel list" where
  "scan_all_rows grid =
     scan_rows Z_vox (fixed_columns_of Z_vox) (face_col_of Z_vox)
       (scan_rows Y_vox (fixed_columns_of Y_vox) (face_col_of Y_vox)
          (scan_rows X_vox (fixed_columns_of X_vox) (face_col_of X_vox) grid))"

text \<open>
  The number of maximal contiguous runs among the occupied positions \<open>vs\<close> of a
  column: the positions whose lower neighbour is not occupied, each counted once.
\<close>

definition maximal_runs :: "int list \<Rightarrow> nat" where
  "maximal_runs vs = length (filter (\<lambda>v. v - 1 \<notin> set vs) (remdups vs))"

text \<open>
  Finite voxel indices.  A row of a voxelized frame is finite when none of its three
  indices is inf or nan; \<open>whole_triple\<close> reads the three indices of a finite row.
\<close>

fun whole :: "floor_result \<Rightarrow> int" where
  "whole (Whole n) = n"
| "whole NonFinite = 0"

definition whole_triple :: "voxelized \<Rightarrow> int \<times> int \<times> int" where
  "whole_triple r = (whole (x_bin r), whole (y_bin r), whole (z_bin r))"

definition is_finite_row :: "voxelized \<Rightarrow> bool" where
  "is_finite_row r \<longleftrightarrow> x_bin r \<noteq> NonFinite \<and> y_bin r \<noteq> NonFinite \<and> z_bin r \<noteq> NonFinite"

definition lift_triple :: "int \<times> int \<times> int \<Rightarrow> floor_result \<times> floor_result \<times> floor_result" where
  "lift_triple c = (case c of (x, y, z) \<Rightarrow> (Whole x, Whole y, Whole z))"

text \<open>The floor-division indices of a localization, as the specification writes them.\<close>

definition floor_triple :: "rat \<Rightarrow> rat \<Rightarrow> loc \<Rightarrow> int \<times> int \<times> int" where
  "floor_triple bin_xy bin_z p = (\<lfloor>x_nm p / bin_xy\<rfloor>, \<lfloor>y_nm p / bin_xy\<rfloor>, \<lfloor>z_nm p / bin_z\<rfloor>)"

text \<open>
  The grid that \<^verbatim>\<open>count_exposed_faces\<close> builds from a list of integer index triples:
  first occurrences only, as fresh voxel rows, moved to the origin.
\<close>

definition voxel_at :: "int \<times> int \<times> int \<Rightarrow> voxel" where
  "voxel_at c = (case c of (x, y, z) \<Rightarrow> new_voxel x y z)"

definition grid_of :: "(int \<times> int \<times> int) list \<Rightarrow> voxel list" where
  "grid_of ts = auto_origin_df (map voxel_at (not_duplicated (\<lambda>c. c) [] ts))"

text \<open>Translation of lattice positions and of voxel rows by a vector of integers.\<close>

definition shift_coords :: "int \<times> int \<times> int \<Rightarrow> int \<times> int \<times> int \<Rightarrow> int \<times> int \<times> int" where
  "shift_coords k c =
     (case k of (kx, ky, kz) \<Rightarrow> case c of (x, y, z) \<Rightarrow> (x + kx, y + ky, z + kz))"

definition shift_voxel :: "int \<times> int \<times> int \<Rightarrow> voxel \<Rightarrow> voxel" where
  "shift_voxel k r =
     (case k of (kx, ky, kz) \<Rightarrow>
        r\<lparr>x_vox := x_vox r + kx, y_vox := y_vox r + ky, z_vox := z_vox r + kz\<rparr>)"


text \<open>The tuple that \<^verbatim>\<open>count_exposed_faces\<close> returns for the scanned frame \<open>out_data\<close>.\<close>

definition face_summary :: "voxel list \<Rightarrow> voxel list \<times> int \<times> int \<times> int \<times> int" where
  "face_summary out_data =
     (out_data, int (length out_data),
      int (length (filter (\<lambda>r. total_faces r \<noteq> 0) out_data)),
      sum_list (map xy_faces out_data), sum_list (map z_faces out_data))"


definition mk_loc :: "rat \<Rightarrow> rat \<Rightarrow> rat \<Rightarrow> loc" where
  "mk_loc x y z = \<lparr>x_nm = x, y_nm = y, z_nm = z, decode_id = 0, hdbscan = 0\<rparr>"

section \<open>The face loop in closed form\<close>

lemma length_face_loop_body [simp]: "length (face_loop_body diff index face) = length face"
  by (simp add: face_loop_body_def Let_def)

lemma face_loop_body_nth:
  assumes "k < length face" "j < length face" "k = 0 \<longrightarrow> \<not> diff ! 0 > 1"
  shows "face_loop_body diff k face ! j =
     (if j = k then (if k = 0 then 1 else face ! k) + (if diff ! k > 1 then 1 else 0)
                    + (if k = length face - 1 then 1 else 0)
      else if Suc j = k \<and> diff ! k > 1 then face ! j + 1 else face ! j)"
  using assms by (auto simp: face_loop_body_def Let_def nth_list_update)

lemma length_fold_body [simp]:
  "length (fold (face_loop_body diff) ks face) = length face"
  by (induction ks arbitrary: face) auto

text \<open>Loop invariant: after the rows below \<open>k\<close>, row \<open>j < k\<close> holds every increment
  except the one that row \<open>j + 1\<close> may still add; the rows from \<open>k\<close> on are 0.\<close>

lemma face_loop_prefix:
  assumes "\<not> diff ! 0 > 1" "k \<le> length diff" "j < length diff"
  shows "fold (face_loop_body diff) [0..<k] (replicate (length diff) 0) ! j =
     (if j < k then (if j = 0 then 1 else 0) + (if diff ! j > 1 then 1 else 0)
                     + (if Suc j < k \<and> diff ! Suc j > 1 then 1 else 0)
                     + (if j = length diff - 1 then 1 else 0)
      else 0)"
  using assms
proof (induction k arbitrary: j)
  case 0
  then show ?case by simp
next
  case (Suc k)
  have k: "k < length diff" using Suc.prems by simp
  let ?f = "fold (face_loop_body diff) [0..<k] (replicate (length diff) 0)"
  have step: "fold (face_loop_body diff) [0..<Suc k] (replicate (length diff) 0)
                = face_loop_body diff k ?f" by simp
  have IH: "\<And>i. i < length diff \<Longrightarrow> ?f ! i =
      (if i < k then (if i = 0 then 1 else 0) + (if diff ! i > 1 then 1 else 0)
                     + (if Suc i < k \<and> diff ! Suc i > 1 then 1 else 0)
                     + (if i = length diff - 1 then 1 else 0)
       else 0)"
    using Suc.IH Suc.prems(1) k by simp
  show ?case
    unfolding step
    using k Suc.prems(1,3) IH[of j] IH[of k]
    by (subst face_loop_body_nth) (auto simp: less_Suc_eq)
qed

lemma length_face_loop [simp]: "length (face_loop diff) = length diff"
  by (simp add: face_loop_def)

lemma face_loop_nth:
  assumes "\<not> diff ! 0 > 1" "j < length diff"
  shows "face_loop diff ! j =
     (if j = 0 then 1 else 0) + (if diff ! j > 1 then 1 else 0)
       + (if Suc j < length diff \<and> diff ! Suc j > 1 then 1 else 0)
       + (if j = length diff - 1 then 1 else 0)"
  using face_loop_prefix[OF assms(1) le_refl assms(2)] assms(2)
  by (simp add: face_loop_def)

lemma length_diff_tail [simp]: "length (diff_tail vs) = length vs - 1"
  by (induction vs rule: diff_tail.induct) auto

lemma diff_tail_nth: "Suc i < length vs \<Longrightarrow> diff_tail vs ! i = vs ! Suc i - vs ! i"
proof (induction vs arbitrary: i rule: diff_tail.induct)
  case (1 a b vs)
  then show ?case by (cases i) auto
qed auto

lemma length_series_diff [simp]: "length (series_diff vs) = length vs"
  by (cases vs) (auto simp: series_diff_def)

lemma series_diff_head: "vs \<noteq> [] \<Longrightarrow> \<not> series_diff vs ! 0 > 1"
  by (simp add: series_diff_def)

lemma series_diff_nth:
  "j < length vs \<Longrightarrow> series_diff vs ! j = (if j = 0 then 0 else vs ! j - vs ! (j - 1))"
  by (cases j) (auto simp: series_diff_def diff_tail_nth)

lemma face_loop_series_diff:
  assumes "j < length vs"
  shows "face_loop (series_diff vs) ! j = column_rule vs j"
proof -
  have "vs \<noteq> []" using assms by auto
  then show ?thesis
    using assms
    by (subst face_loop_nth) (auto simp: series_diff_head series_diff_nth column_rule_def)
qed

lemma length_scan_group [simp]: "length (scan_group axis face_col g) = length g"
  by (simp add: scan_group_def Let_def)

lemma scan_group_nth:
  assumes "i < length g"
  shows "scan_group axis face_col g ! i =
           assign face_col
             (column_rule (map (\<lambda>r. cell r axis) (sort_key (\<lambda>r. cell r axis) g)) i)
             (sort_key (\<lambda>r. cell r axis) g ! i)"
  using assms by (simp add: scan_group_def Let_def face_loop_series_diff)

section \<open>One pass over a frame\<close>

lemma fold_concat_frame:
  "fold (\<lambda>(k, g) scanned. concat_frame scanned (f g)) gs (Frame a)
     = Frame (a @ concat (map (\<lambda>(k, g). f g) gs))"
  by (induction gs arbitrary: a) (auto split: prod.splits)

lemma fold_concat_frame_empty:
  "fold (\<lambda>(k, g) scanned. concat_frame scanned (f g)) gs EmptyFrame
     = (if gs = [] then EmptyFrame else Frame (concat (map (\<lambda>(k, g). f g) gs)))"
  by (cases gs) (auto simp: fold_concat_frame split: prod.splits)

lemma groupby_Nil_iff: "groupby key rs = [] \<longleftrightarrow> rs = []"
  by (cases rs) (auto simp: groupby_def dest!: arg_cong[where f=set])

lemma scan_faces_1d_Frame:
  "scan_faces_1d (Frame rs) axis fixed_columns face_col =
     Inr (if rs = [] then EmptyFrame else Frame (scan_rows axis fixed_columns face_col rs))"
  by (simp add: scan_faces_1d_def fold_concat_frame_empty groupby_Nil_iff scan_rows_def)

lemma scan_faces_eq:
  "scan_faces df axis = scan_faces_1d df axis (fixed_columns_of axis) (face_col_of axis)"
  by (simp add: scan_faces_def fixed_columns_of_def face_col_of_def)

lemma sum_length_groups:
  assumes "finite K" "key ` set rs \<subseteq> K"
  shows "(\<Sum>k\<in>K. length (filter (\<lambda>r. key r = k) rs)) = length rs"
  using assms(2)
proof (induction rs)
  case Nil
  then show ?case by simp
next
  case (Cons r rs)
  have "(\<Sum>k\<in>K. length (filter (\<lambda>r. key r = k) (r # rs)))
        = (\<Sum>k\<in>K. length (filter (\<lambda>r. key r = k) rs) + (if k = key r then 1 else 0))"
    by (intro sum.cong) auto
  also have "\<dots> = length rs + 1"
    using Cons assms(1) by (simp add: sum.distrib)
  finally show ?case by simp
qed

lemma length_scan_rows [simp]: "length (scan_rows axis fixed fc rs) = length rs"
proof -
  let ?ks = "sort (remdups (map (group_key fixed) rs))"
  have "length (scan_rows axis fixed fc rs)
          = sum_list (map (\<lambda>k. length (filter (\<lambda>r. group_key fixed r = k) rs)) ?ks)"
    by (simp add: scan_rows_def groupby_def length_concat comp_def)
  also have "\<dots> = (\<Sum>k\<in>set ?ks. length (filter (\<lambda>r. group_key fixed r = k) rs))"
    by (rule sum_list_distinct_conv_sum_set) simp
  also have "\<dots> = length rs"
    by (rule sum_length_groups) auto
  finally show ?thesis .
qed

lemma face_col_of_cases: "face_col_of axis \<in> {X_faces, Y_faces, Z_faces}"
  by (simp add: face_col_of_def)

lemma assign_face_coords:
  "fc \<in> {X_faces, Y_faces, Z_faces} \<Longrightarrow>
     x_vox (assign fc v r) = x_vox r \<and> y_vox (assign fc v r) = y_vox r
     \<and> z_vox (assign fc v r) = z_vox r"
  by auto

lemma cell_assign_same [simp]: "cell (assign c v r) c = v"
  by (cases c) auto

lemma assign_face_col_of_coords [simp]:
  "x_vox (assign (face_col_of axis) v r) = x_vox r"
  "y_vox (assign (face_col_of axis) v r) = y_vox r"
  "z_vox (assign (face_col_of axis) v r) = z_vox r"
  by (simp_all add: face_col_of_def)

section \<open>Exposure of a column\<close>

lemma strict_low:
  assumes "sorted_wrt (<) (vs::int list)" "i < length vs"
  shows "(i = 0 \<or> vs ! i - vs ! (i - 1) > 1) \<longleftrightarrow> vs ! i - 1 \<notin> set vs"
proof
  assume L: "i = 0 \<or> vs ! i - vs ! (i - 1) > 1"
  show "vs ! i - 1 \<notin> set vs"
  proof
    assume "vs ! i - 1 \<in> set vs"
    then obtain j where j: "j < length vs" "vs ! j = vs ! i - 1" by (auto simp: in_set_conv_nth)
    have "j < i"
    proof (rule ccontr)
      assume "\<not> j < i"
      then have "i = j \<or> i < j" by auto
      then show False using sorted_wrt_nth_less[OF assms(1), of i j] j by auto
    qed
    then have i0: "i \<noteq> 0" by simp
    have "vs ! j \<le> vs ! (i - 1)"
    proof (cases "j = i - 1")
      case False
      then have "j < i - 1" using \<open>j < i\<close> by simp
      moreover have "i - 1 < length vs" using assms(2) by simp
      ultimately have "vs ! j < vs ! (i - 1)" by (rule sorted_wrt_nth_less[OF assms(1)])
      then show ?thesis by simp
    qed simp
    then show False using L i0 j by simp
  qed
next
  assume R: "vs ! i - 1 \<notin> set vs"
  show "i = 0 \<or> vs ! i - vs ! (i - 1) > 1"
  proof (cases "i = 0")
    case False
    then have "vs ! (i - 1) < vs ! i"
      using sorted_wrt_nth_less[OF assms(1), of "i - 1" i] assms(2) by simp
    moreover have "vs ! (i - 1) \<in> set vs" using assms(2) by (simp add: less_imp_diff_less)
    ultimately have "vs ! (i - 1) \<noteq> vs ! i - 1" using R by metis
    then show ?thesis using \<open>vs ! (i - 1) < vs ! i\<close> by simp
  qed simp
qed

lemma strict_high:
  assumes "sorted_wrt (<) (vs::int list)" "i < length vs"
  shows "(i = length vs - 1 \<or> vs ! (i + 1) - vs ! i > 1) \<longleftrightarrow> vs ! i + 1 \<notin> set vs"
proof
  assume L: "i = length vs - 1 \<or> vs ! (i + 1) - vs ! i > 1"
  show "vs ! i + 1 \<notin> set vs"
  proof
    assume "vs ! i + 1 \<in> set vs"
    then obtain j where j: "j < length vs" "vs ! j = vs ! i + 1" by (auto simp: in_set_conv_nth)
    have "i < j"
    proof (rule ccontr)
      assume "\<not> i < j"
      then have "i = j \<or> j < i" by auto
      then show False using sorted_wrt_nth_less[OF assms(1), of j i] j assms(2) by auto
    qed
    then have i0: "i \<noteq> length vs - 1" using j by simp
    have "vs ! (i + 1) \<le> vs ! j"
    proof (cases "j = i + 1")
      case False
      then have "i + 1 < j" using \<open>i < j\<close> by simp
      then show ?thesis using sorted_wrt_nth_less[OF assms(1), of "i + 1" j] j by simp
    qed simp
    then show False using L i0 j by simp
  qed
next
  assume R: "vs ! i + 1 \<notin> set vs"
  show "i = length vs - 1 \<or> vs ! (i + 1) - vs ! i > 1"
  proof (cases "i = length vs - 1")
    case False
    then have lt: "i + 1 < length vs" using assms(2) by simp
    then have "vs ! i < vs ! (i + 1)"
      using sorted_wrt_nth_less[OF assms(1), of i "i + 1"] by simp
    moreover have "vs ! (i + 1) \<in> set vs" using lt by simp
    ultimately have "vs ! (i + 1) \<noteq> vs ! i + 1" using R by metis
    then show ?thesis using \<open>vs ! i < vs ! (i + 1)\<close> by simp
  qed simp
qed

lemma column_rule_exposure:
  assumes "sorted_wrt (<) (vs::int list)" "i < length vs"
  shows "column_rule vs i = exposure (set vs) (vs ! i)"
proof -
  have a: "(if i = 0 then 1 else 0) + (if 0 < i \<and> vs ! i - vs ! (i - 1) > 1 then 1 else 0)
        = (if vs ! i - 1 \<in> set vs then 0 else (1::int))"
    using strict_low[OF assms] by auto
  have b: "(if i = length vs - 1 then 1 else 0) + (if i + 1 < length vs \<and> vs ! (i + 1) - vs ! i > 1 then 1 else 0)
        = (if vs ! i + 1 \<in> set vs then 0 else (1::int))"
    using strict_high[OF assms] assms(2) by auto
  show ?thesis unfolding column_rule_def exposure_def using a b by linarith
qed

lemma scan_group_exposure:
  assumes "distinct (map (\<lambda>r. cell r axis) g)"
  shows "scan_group axis fc g =
           map (\<lambda>r. assign fc (exposure ((\<lambda>r. cell r axis) ` set g) (cell r axis)) r)
             (sort_key (\<lambda>r. cell r axis) g)"
proof (rule nth_equalityI)
  show "length (scan_group axis fc g) = length (map (\<lambda>r. assign fc (exposure ((\<lambda>r. cell r axis) ` set g) (cell r axis)) r)
             (sort_key (\<lambda>r. cell r axis) g))" by simp
next
  fix i assume "i < length (scan_group axis fc g)"
  then have i: "i < length g" by simp
  let ?s = "sort_key (\<lambda>r. cell r axis) g"
  let ?vs = "map (\<lambda>r. cell r axis) ?s"
  have "distinct ?vs"
    using assms by (simp add: distinct_map)
  then have st: "sorted_wrt (<) ?vs"
    by (simp add: strict_sorted_iff)
  have "column_rule ?vs i = exposure (set ?vs) (?vs ! i)"
    using column_rule_exposure[OF st] i by simp
  moreover have "set ?vs = (\<lambda>r. cell r axis) ` set g" by simp
  moreover have "?vs ! i = cell (?s ! i) axis" using i by simp
  ultimately show "scan_group axis fc g ! i = map (\<lambda>r. assign fc (exposure ((\<lambda>r. cell r axis) ` set g) (cell r axis)) r) ?s ! i"
    using i by (simp add: scan_group_nth)
qed

section \<open>Exposure in a deduplicated grid\<close>

lemma coords_eq_iff:
  assumes "is_axis axis"
  shows "coords r = coords r' \<longleftrightarrow>
           cell r axis = cell r' axis
           \<and> group_key (fixed_columns_of axis) r = group_key (fixed_columns_of axis) r'"
  using assms by (auto simp: is_axis_def coords_def group_key_def fixed_columns_of_def)

lemma set_scan_rows:
  "set (scan_rows axis fixed fc rs)
     = (\<Union>k\<in>group_key fixed ` set rs. set (scan_group axis fc (filter (\<lambda>r. group_key fixed r = k) rs)))"
  by (auto simp: scan_rows_def groupby_def)

lemma group_distinct_axis:
  assumes "is_axis axis" "distinct (map coords rs)"
  shows "distinct (map (\<lambda>r. cell r axis) (filter (\<lambda>r. group_key (fixed_columns_of axis) r = k) rs))"
proof -
  let ?g = "filter (\<lambda>r. group_key (fixed_columns_of axis) r = k) rs"
  have d: "distinct rs" and inj: "inj_on coords (set rs)"
    using assms(2) by (auto simp: distinct_map)
  have "inj_on (\<lambda>r. cell r axis) (set ?g)"
  proof (rule inj_onI)
    fix a b assume a: "a \<in> set ?g" and b: "b \<in> set ?g" and e: "cell a axis = cell b axis"
    then have "coords a = coords b" using coords_eq_iff[OF assms(1), of a b] by simp
    then show "a = b" using inj a b by (auto dest: inj_onD)
  qed
  then show ?thesis using d by (simp add: distinct_map)
qed

lemma neighbour_iff:
  assumes "is_axis axis"
  shows "coords r' = neighbour axis d (coords r) \<longleftrightarrow>
           group_key (fixed_columns_of axis) r' = group_key (fixed_columns_of axis) r
           \<and> cell r' axis = cell r axis + d"
  using assms by (auto simp: is_axis_def coords_def group_key_def fixed_columns_of_def)

lemma group_exposure:
  assumes "is_axis axis" "r \<in> set rs" "group_key (fixed_columns_of axis) r = k"
  shows "exposure ((\<lambda>r. cell r axis) ` set (filter (\<lambda>r. group_key (fixed_columns_of axis) r = k) rs))
            (cell r axis)
         = exposed_faces (coords ` set rs) axis (coords r)"
proof -
  let ?V = "(\<lambda>r. cell r axis) ` set (filter (\<lambda>r. group_key (fixed_columns_of axis) r = k) rs)"
  have n: "(cell r axis + d \<in> ?V) \<longleftrightarrow> neighbour axis d (coords r) \<in> coords ` set rs" for d
  proof -
    have "(cell r axis + d \<in> ?V)
            \<longleftrightarrow> (\<exists>r'\<in>set rs. group_key (fixed_columns_of axis) r' = k \<and> cell r' axis = cell r axis + d)"
      by (force simp: image_iff)
    also have "\<dots> \<longleftrightarrow> (\<exists>r'\<in>set rs. coords r' = neighbour axis d (coords r))"
      using assms(3) by (simp add: neighbour_iff[OF assms(1)])
    also have "\<dots> \<longleftrightarrow> neighbour axis d (coords r) \<in> coords ` set rs"
      by (force simp: image_iff)
    finally show ?thesis .
  qed
  show ?thesis
    unfolding exposure_def exposed_faces_def
    using n[of "- 1"] n[of 1] by simp
qed

lemma set_scan_rows_exposed:
  assumes "is_axis axis" "distinct (map coords rs)"
  shows "set (scan_rows axis (fixed_columns_of axis) (face_col_of axis) rs)
           = (\<lambda>r. assign (face_col_of axis) (exposed_faces (coords ` set rs) axis (coords r)) r) ` set rs"
proof -
  let ?key = "group_key (fixed_columns_of axis)"
  let ?fc = "face_col_of axis"
  let ?e = "\<lambda>r. assign ?fc (exposed_faces (coords ` set rs) axis (coords r)) r"
  have grp: "set (scan_group axis ?fc (filter (\<lambda>r. ?key r = k) rs))
               = ?e ` set (filter (\<lambda>r. ?key r = k) rs)" for k
  proof -
    let ?g = "filter (\<lambda>r. ?key r = k) rs"
    have "set (scan_group axis ?fc ?g)
            = (\<lambda>r. assign ?fc (exposure ((\<lambda>r. cell r axis) ` set ?g) (cell r axis)) r) ` set ?g"
      by (subst scan_group_exposure[OF group_distinct_axis[OF assms]]) simp
    also have "\<dots> = ?e ` set ?g"
    proof (rule image_cong[OF refl])
      fix r assume "r \<in> set ?g"
      then have "r \<in> set rs" "?key r = k" by auto
      from group_exposure[OF assms(1) this]
      show "assign ?fc (exposure ((\<lambda>r. cell r axis) ` set ?g) (cell r axis)) r = ?e r"
        by simp
    qed
    finally show ?thesis .
  qed
  show ?thesis
    unfolding set_scan_rows grp by auto
qed


lemma length_scan_all_rows [simp]: "length (scan_all_rows grid) = length grid"
  by (simp add: scan_all_rows_def)

lemma scan_faces_1d_EmptyFrame:
  "scan_faces_1d EmptyFrame axis fixed_columns face_col = Inl KeyError"
  by (simp add: scan_faces_1d_def)

lemma scan_faces_all_Frame:
  "scan_faces_all (Frame grid)
     = (if grid = [] then Inl KeyError else Inr (Frame (scan_all_rows grid)))"
proof (cases "grid = []")
  case True
  then show ?thesis
    by (simp add: scan_faces_all_def scan_faces_eq scan_faces_1d_Frame scan_faces_1d_EmptyFrame)
next
  case False
  let ?r1 = "scan_rows X_vox (fixed_columns_of X_vox) (face_col_of X_vox) grid"
  let ?r2 = "scan_rows Y_vox (fixed_columns_of Y_vox) (face_col_of Y_vox) ?r1"
  have "length ?r1 = length grid" "length ?r2 = length grid" by simp_all
  then have "?r1 \<noteq> []" "?r2 \<noteq> []" using False by (metis length_0_conv)+
  then show ?thesis using False
    by (simp add: scan_faces_all_def scan_faces_eq scan_faces_1d_Frame scan_all_rows_def)
qed

lemma coords_assign_face [simp]: "coords (assign (face_col_of axis) v r) = coords r"
  by (simp add: coords_def)

lemma coords_set_scan_rows:
  assumes "is_axis axis" "distinct (map coords rs)"
  shows "coords ` set (scan_rows axis (fixed_columns_of axis) (face_col_of axis) rs) = coords ` set rs"
  unfolding set_scan_rows_exposed[OF assms] by (simp add: image_image)

lemma distinct_coords_scan_rows:
  assumes "is_axis axis" "distinct (map coords rs)"
  shows "distinct (map coords (scan_rows axis (fixed_columns_of axis) (face_col_of axis) rs))"
proof (rule card_distinct)
  let ?out = "scan_rows axis (fixed_columns_of axis) (face_col_of axis) rs"
  have "card (set (map coords ?out)) = card (set (map coords rs))"
    using coords_set_scan_rows[OF assms] by simp
  also have "\<dots> = length (map coords rs)"
    using assms(2) by (rule distinct_card)
  finally show "card (set (map coords ?out)) = length (map coords ?out)" by simp
qed

lemma is_axis_simps [simp]: "is_axis X_vox" "is_axis Y_vox" "is_axis Z_vox"
  by (simp_all add: is_axis_def)

lemma scan_all_rows_props:
  assumes "distinct (map coords grid)"
  shows "coords ` set (scan_all_rows grid) = coords ` set grid"
    and "distinct (map coords (scan_all_rows grid))"
    and "\<forall>r\<in>set (scan_all_rows grid). r = exposed_voxel (coords ` set grid) (coords r)"
proof -
  let ?S = "coords ` set grid"
  let ?r1 = "scan_rows X_vox (fixed_columns_of X_vox) (face_col_of X_vox) grid"
  let ?r2 = "scan_rows Y_vox (fixed_columns_of Y_vox) (face_col_of Y_vox) ?r1"
  let ?r3 = "scan_rows Z_vox (fixed_columns_of Z_vox) (face_col_of Z_vox) ?r2"
  have d1: "distinct (map coords ?r1)" and s1: "coords ` set ?r1 = ?S"
    using assms by (simp_all add: distinct_coords_scan_rows coords_set_scan_rows)
  have d2: "distinct (map coords ?r2)" and s2: "coords ` set ?r2 = ?S"
    using d1 s1 by (simp_all add: distinct_coords_scan_rows coords_set_scan_rows)
  have d3: "distinct (map coords ?r3)" and s3: "coords ` set ?r3 = ?S"
    using d2 s2 by (simp_all add: distinct_coords_scan_rows coords_set_scan_rows)
  show "coords ` set (scan_all_rows grid) = ?S" using s3 by (simp add: scan_all_rows_def)
  show "distinct (map coords (scan_all_rows grid))" using d3 by (simp add: scan_all_rows_def)
  show "\<forall>r\<in>set (scan_all_rows grid). r = exposed_voxel ?S (coords r)"
  proof
    fix r assume "r \<in> set (scan_all_rows grid)"
    then have "r \<in> set ?r3" by (simp add: scan_all_rows_def)
    then obtain r2 where r2: "r2 \<in> set ?r2"
        and r: "r = assign (face_col_of Z_vox) (exposed_faces ?S Z_vox (coords r2)) r2"
      unfolding set_scan_rows_exposed[OF is_axis_simps(3) d2] s2 by auto
    from r2 obtain r1 where r1: "r1 \<in> set ?r1"
        and r2e: "r2 = assign (face_col_of Y_vox) (exposed_faces ?S Y_vox (coords r1)) r1"
      unfolding set_scan_rows_exposed[OF is_axis_simps(2) d1] s1 by auto
    from r1 obtain r0 where r0: "r0 \<in> set grid"
        and r1e: "r1 = assign (face_col_of X_vox) (exposed_faces ?S X_vox (coords r0)) r0"
      unfolding set_scan_rows_exposed[OF is_axis_simps(1) assms] by auto
    show "r = exposed_voxel ?S (coords r)"
      unfolding r r2e r1e
      by (simp add: exposed_voxel_def face_col_of_def coords_def)
  qed
qed


lemma sorted_wrt_concat_map:
  assumes "sorted_wrt (<) ks"
    and "\<And>k. k \<in> set ks \<Longrightarrow> sorted_wrt P (f k)"
    and "\<And>k k' a b. k \<in> set ks \<Longrightarrow> k' \<in> set ks \<Longrightarrow> k < k' \<Longrightarrow> a \<in> set (f k) \<Longrightarrow> b \<in> set (f k') \<Longrightarrow> P a b"
  shows "sorted_wrt P (concat (map f ks))"
  using assms
proof (induction ks)
  case Nil
  then show ?case by simp
next
  case (Cons k ks)
  have "sorted_wrt P (concat (map f ks))"
  proof (rule Cons.IH)
    show "sorted_wrt (<) ks" using Cons.prems(1) by simp
    show "\<And>k. k \<in> set ks \<Longrightarrow> sorted_wrt P (f k)" using Cons.prems(2) by simp
    show "\<And>k k' a b. k \<in> set ks \<Longrightarrow> k' \<in> set ks \<Longrightarrow> k < k' \<Longrightarrow> a \<in> set (f k)
            \<Longrightarrow> b \<in> set (f k') \<Longrightarrow> P a b"
      by (rule Cons.prems(3)) simp_all
  qed
  moreover have "sorted_wrt P (f k)" using Cons.prems(2) by simp
  moreover have "\<forall>a\<in>set (f k). \<forall>b\<in>set (concat (map f ks)). P a b"
  proof (intro ballI)
    fix a b assume a: "a \<in> set (f k)" and "b \<in> set (concat (map f ks))"
    then obtain k' where k': "k' \<in> set ks" "b \<in> set (f k')" by auto
    then have "k < k'" using Cons.prems(1) by simp
    then show "P a b" using Cons.prems(3)[of k k' a b] a k' by simp
  qed
  ultimately show ?case by (simp add: sorted_wrt_append)
qed

lemma map_coords_scan_group:
  "map coords (scan_group axis (face_col_of axis') g) = map coords (sort_key (\<lambda>r. cell r axis) g)"
  by (rule nth_equalityI) (simp_all add: scan_group_nth)

lemma sorted_coords_scan_rows_z:
  "sorted (map coords (scan_rows Z_vox (fixed_columns_of Z_vox) (face_col_of Z_vox) rs))"
proof -
  let ?key = "group_key (fixed_columns_of Z_vox)"
  let ?ks = "sort (remdups (map ?key rs))"
  let ?f = "\<lambda>k. map coords (sort_key (\<lambda>r. cell r Z_vox) (filter (\<lambda>r. ?key r = k) rs))"
  have e: "map coords (scan_rows Z_vox (fixed_columns_of Z_vox) (face_col_of Z_vox) rs)
             = concat (map ?f ?ks)"
    by (simp add: scan_rows_def groupby_def map_concat comp_def map_coords_scan_group)
  have "sorted_wrt (\<le>) (concat (map ?f ?ks))"
  proof (rule sorted_wrt_concat_map)
    show "sorted_wrt (<) ?ks" by (simp add: strict_sorted_iff)
  next
    fix k
    let ?g = "filter (\<lambda>r. ?key r = k) rs"
    have "sorted (map (\<lambda>r. cell r Z_vox) (sort_key (\<lambda>r. cell r Z_vox) ?g))" by simp
    then have "sorted_wrt (\<lambda>a b. z_vox a \<le> z_vox b) (sort_key (\<lambda>r. cell r Z_vox) ?g)"
      by (simp add: sorted_map)
    then have "sorted_wrt (\<lambda>a b. coords a \<le> coords b) (sort_key (\<lambda>r. cell r Z_vox) ?g)"
    proof (rule sorted_wrt_mono_rel[rotated])
      fix a b assume "a \<in> set (sort_key (\<lambda>r. cell r Z_vox) ?g)" "b \<in> set (sort_key (\<lambda>r. cell r Z_vox) ?g)"
        and "z_vox a \<le> z_vox b"
      then show "coords a \<le> coords b"
        by (auto simp: coords_def group_key_def fixed_columns_of_def)
    qed
    then show "sorted_wrt (\<le>) (?f k)" by (simp add: sorted_wrt_map)
  next
    fix k k' a b
    assume "k < k'" "a \<in> set (?f k)" "b \<in> set (?f k')"
    then show "a \<le> b"
      by (auto simp: coords_def group_key_def fixed_columns_of_def)
  qed
  then show ?thesis unfolding e by simp
qed

lemma map_coords_scan_all_rows:
  assumes "distinct (map coords grid)"
  shows "map coords (scan_all_rows grid) = sort (map coords grid)"
proof (rule sorted_distinct_set_unique)
  show "sorted (map coords (scan_all_rows grid))"
    unfolding scan_all_rows_def by (rule sorted_coords_scan_rows_z)
  show "distinct (map coords (scan_all_rows grid))"
    by (rule scan_all_rows_props(2)[OF assms])
  show "sorted (sort (map coords grid))" by simp
  show "distinct (sort (map coords grid))" using assms by simp
  show "set (map coords (scan_all_rows grid)) = set (sort (map coords grid))"
    using scan_all_rows_props(1)[OF assms] by simp
qed

lemma scan_all_rows_eq:
  assumes "distinct (map coords grid)"
  shows "scan_all_rows grid = map (exposed_voxel (coords ` set grid)) (sort (map coords grid))"
proof -
  have "scan_all_rows grid = map (\<lambda>r. exposed_voxel (coords ` set grid) (coords r)) (scan_all_rows grid)"
    using scan_all_rows_props(3)[OF assms] by (simp add: map_idI)
  also have "\<dots> = map (exposed_voxel (coords ` set grid)) (map coords (scan_all_rows grid))"
    by simp
  finally show ?thesis unfolding map_coords_scan_all_rows[OF assms] .
qed


section \<open>Face counts of a column\<close>

lemma card_shift_up:
  assumes "finite (V::int set)"
  shows "card {v\<in>V. v + 1 \<in> V} = card {w\<in>V. w - 1 \<in> V}"
proof -
  have "{w\<in>V. w - 1 \<in> V} = (\<lambda>v. v + 1) ` {v\<in>V. v + 1 \<in> V}"
    by (auto simp: image_iff) (metis diff_add_cancel)
  moreover have "inj_on (\<lambda>v::int. v + 1) {v\<in>V. v + 1 \<in> V}" by (simp add: inj_on_def)
  ultimately show ?thesis by (simp add: card_image)
qed

lemma card_split_pred:
  assumes "finite V"
  shows "card {v\<in>V. \<not> P v} = card V - card {v\<in>V. P v}"
proof -
  have "{v\<in>V. \<not> P v} = V - {v\<in>V. P v}" by auto
  then show ?thesis using assms by (simp add: card_Diff_subset)
qed

lemma sum_exposure:
  assumes "finite (V::int set)"
  shows "(\<Sum>v\<in>V. exposure V v) = 2 * int (card {v\<in>V. v - 1 \<notin> V})"
proof -
  have "(\<Sum>v\<in>V. exposure V v)
          = (\<Sum>v\<in>V. if v - 1 \<in> V then 0 else 1) + (\<Sum>v\<in>V. if v + 1 \<in> V then 0 else (1::int))"
    by (simp add: exposure_def sum.distrib)
  also have "(\<Sum>v\<in>V. if v - 1 \<in> V then 0 else (1::int)) = int (card {v\<in>V. v - 1 \<notin> V})"
    using assms by (simp add: sum.If_cases Int_def)
  also have "(\<Sum>v\<in>V. if v + 1 \<in> V then 0 else (1::int)) = int (card {v\<in>V. v + 1 \<notin> V})"
    using assms by (simp add: sum.If_cases Int_def)
  also have "card {v\<in>V. v + 1 \<notin> V} = card {v\<in>V. v - 1 \<notin> V}"
    using card_split_pred[OF assms, of "\<lambda>v. v + 1 \<in> V"] card_split_pred[OF assms, of "\<lambda>v. v - 1 \<in> V"]
      card_shift_up[OF assms] by simp
  finally show ?thesis by simp
qed

lemma maximal_runs_card:
  "maximal_runs vs = card {v\<in>set vs. v - 1 \<notin> set vs}"
proof -
  have "distinct (filter (\<lambda>v. v - 1 \<notin> set vs) (remdups vs))" by simp
  then have "length (filter (\<lambda>v. v - 1 \<notin> set vs) (remdups vs))
               = card (set (filter (\<lambda>v. v - 1 \<notin> set vs) (remdups vs)))"
    by (rule distinct_card[symmetric])
  then show ?thesis by (simp add: maximal_runs_def)
qed

lemma exposure_range: "exposure V v \<in> {0, 1, 2}"
  by (simp add: exposure_def)

lemma exposed_faces_range: "exposed_faces S axis c \<in> {0, 1, 2}"
  by (simp add: exposed_faces_def)

lemma cell_exposed_voxel:
  assumes "is_axis axis"
  shows "cell (exposed_voxel S c) (face_col_of axis) = exposed_faces S axis c"
    and "coords (exposed_voxel S c) = c"
  using assms by (auto simp: is_axis_def exposed_voxel_def face_col_of_def coords_def split: prod.splits)

lemma group_key_coords:
  "coords r = coords r' \<Longrightarrow> group_key (fixed_columns_of axis) r = group_key (fixed_columns_of axis) r'"
  by (auto simp: coords_def group_key_def fixed_columns_of_def)

lemma column_sum:
  assumes "is_axis axis" "distinct (map coords grid)"
  shows "sum_list (map (\<lambda>r. cell r (face_col_of axis))
            (filter (\<lambda>r. group_key (fixed_columns_of axis) r = k) (scan_all_rows grid)))
         = 2 * int (maximal_runs (map (\<lambda>r. cell r axis)
                      (filter (\<lambda>r. group_key (fixed_columns_of axis) r = k) grid)))"
proof -
  let ?key = "group_key (fixed_columns_of axis)"
  let ?S = "coords ` set grid"
  let ?E = "\<lambda>r. exposed_voxel ?S (coords r)"
  let ?out = "scan_all_rows grid"
  let ?g = "filter (\<lambda>r. ?key r = k) grid"
  let ?V = "(\<lambda>r. cell r axis) ` set ?g"
  have dg: "distinct grid" and inj: "inj_on coords (set grid)"
    using assms(2) by (auto simp: distinct_map)
  have dout: "distinct ?out"
    using scan_all_rows_props(2)[OF assms(2)] by (auto simp: distinct_map)
  have setout: "set ?out = ?E ` set grid"
  proof -
    have "set ?out = exposed_voxel ?S ` set (sort (map coords grid))"
      unfolding scan_all_rows_eq[OF assms(2)] by simp
    then show ?thesis by (simp add: image_image)
  qed
  have keyE: "?key (?E r) = ?key r" for r
    by (rule group_key_coords) (simp add: cell_exposed_voxel(2)[OF assms(1)])
  have colset: "set (filter (\<lambda>r. ?key r = k) ?out) = ?E ` set ?g"
    unfolding set_filter setout using keyE by auto
  have injE: "inj_on ?E (set ?g)"
  proof (rule inj_onI)
    fix a b assume a: "a \<in> set ?g" and b: "b \<in> set ?g" and e: "?E a = ?E b"
    then have "coords (?E a) = coords (?E b)" by simp
    then have "coords a = coords b" by (simp add: cell_exposed_voxel(2)[OF assms(1)])
    then show "a = b" using inj a b by (auto dest: inj_onD)
  qed
  have injax: "inj_on (\<lambda>r. cell r axis) (set ?g)"
    using group_distinct_axis[OF assms, of k] by (simp add: distinct_map)
  have "sum_list (map (\<lambda>r. cell r (face_col_of axis)) (filter (\<lambda>r. ?key r = k) ?out))
          = (\<Sum>r\<in>set (filter (\<lambda>r. ?key r = k) ?out). cell r (face_col_of axis))"
    using dout by (intro sum_list_distinct_conv_sum_set) simp
  also have "\<dots> = (\<Sum>r\<in>set ?g. cell (?E r) (face_col_of axis))"
    unfolding colset using injE by (simp add: sum.reindex)
  also have "\<dots> = (\<Sum>r\<in>set ?g. exposure ?V (cell r axis))"
  proof (rule sum.cong[OF refl])
    fix r assume "r \<in> set ?g"
    then have "r \<in> set grid" "?key r = k" by auto
    from group_exposure[OF assms(1) this]
    show "cell (?E r) (face_col_of axis) = exposure ?V (cell r axis)"
      by (simp add: cell_exposed_voxel(1)[OF assms(1)])
  qed
  also have "\<dots> = (\<Sum>v\<in>?V. exposure ?V v)"
    using injax by (simp add: sum.reindex)
  also have "\<dots> = 2 * int (card {v\<in>?V. v - 1 \<notin> ?V})"
    by (rule sum_exposure) simp
  also have "\<dots> = 2 * int (maximal_runs (map (\<lambda>r. cell r axis) ?g))"
    by (simp add: maximal_runs_card)
  finally show ?thesis .
qed

lemma scan_rows_from_grid:
  assumes "is_axis axis" "distinct (map coords rs)"
  shows "\<forall>r\<in>set (scan_rows axis (fixed_columns_of axis) (face_col_of axis) rs).
           \<exists>r0\<in>set rs. \<exists>v. r = assign (face_col_of axis) v r0"
  unfolding set_scan_rows_exposed[OF assms] by blast

section \<open>Deduplication and integer conversion\<close>

lemma inj_lift_triple: "inj lift_triple"
  by (auto simp: inj_def lift_triple_def)

lemma finite_row_triple: "is_finite_row r \<Longrightarrow> bin_triple r = lift_triple (whole_triple r)"
  by (cases "x_bin r"; cases "y_bin r"; cases "z_bin r")
     (auto simp: is_finite_row_def bin_triple_def lift_triple_def whole_triple_def)

lemma set_not_duplicated_subset: "set (not_duplicated key seen rs) \<subseteq> set rs"
  by (induction key seen rs rule: not_duplicated.induct) auto

lemma not_duplicated_finite:
  assumes "\<forall>r\<in>set rs. is_finite_row r"
  shows "map whole_triple (not_duplicated bin_triple (map lift_triple seen) rs)
           = not_duplicated (\<lambda>c. c) seen (map whole_triple rs)"
  using assms
proof (induction rs arbitrary: seen)
  case Nil
  then show ?case by simp
next
  case (Cons r rs)
  have t: "bin_triple r = lift_triple (whole_triple r)"
    using Cons.prems by (simp add: finite_row_triple)
  have m: "bin_triple r \<in> set (map lift_triple seen) \<longleftrightarrow> whole_triple r \<in> set seen"
    unfolding t by (simp add: inj_image_mem_iff[OF inj_lift_triple])
  have IH1: "map whole_triple (not_duplicated bin_triple (map lift_triple seen) rs)
           = not_duplicated (\<lambda>c. c) seen (map whole_triple rs)"
    using Cons by simp
  have IH2: "map whole_triple (not_duplicated bin_triple (map lift_triple (whole_triple r # seen)) rs)
           = not_duplicated (\<lambda>c. c) (whole_triple r # seen) (map whole_triple rs)"
    using Cons.IH[of "whole_triple r # seen"] Cons.prems by simp
  show ?case
  proof (cases "whole_triple r \<in> set seen")
    case True
    then show ?thesis using m IH1 by simp
  next
    case False
    then show ?thesis using m IH2 t by simp
  qed
qed

lemma astype_int_finite:
  assumes "\<forall>r\<in>set rs. is_finite_row r"
  shows "astype_int rs = Inr (map (\<lambda>r. voxel_at (whole_triple r)) rs)"
  using assms
proof (induction rs)
  case Nil
  then show ?case by simp
next
  case (Cons r rs)
  then have "is_finite_row r" by simp
  then obtain x y z where "x_bin r = Whole x" "y_bin r = Whole y" "z_bin r = Whole z"
    by (cases "x_bin r"; cases "y_bin r"; cases "z_bin r") (auto simp: is_finite_row_def)
  then show ?case using Cons by (simp add: voxel_at_def whole_triple_def)
qed

lemma astype_int_nonfinite:
  assumes "\<exists>r\<in>set rs. \<not> is_finite_row r"
  shows "astype_int rs = Inl ValueError"
  using assms
proof (induction rs)
  case Nil
  then show ?case by simp
next
  case (Cons r rs)
  show ?case
  proof (cases "is_finite_row r")
    case True
    then obtain x y z where "x_bin r = Whole x" "y_bin r = Whole y" "z_bin r = Whole z"
      by (cases "x_bin r"; cases "y_bin r"; cases "z_bin r") (auto simp: is_finite_row_def)
    moreover have "astype_int rs = Inl ValueError" using Cons True by auto
    ultimately show ?thesis by simp
  next
    case False
    then show ?thesis
      by (cases "x_bin r"; cases "y_bin r"; cases "z_bin r") (auto simp: is_finite_row_def)
  qed
qed

lemma voxel_grid_finite:
  assumes "\<forall>r\<in>set rs. is_finite_row r"
  shows "voxel_grid rs = Inr (grid_of (map whole_triple rs))"
proof -
  let ?nd = "not_duplicated bin_triple [] rs"
  have f: "\<forall>r\<in>set ?nd. is_finite_row r"
    using assms set_not_duplicated_subset[of bin_triple "[]" rs] by blast
  have e: "map whole_triple ?nd = not_duplicated (\<lambda>c. c) [] (map whole_triple rs)"
    using not_duplicated_finite[OF assms, of "[]"] by simp
  have "map (\<lambda>r. voxel_at (whole_triple r)) ?nd = map voxel_at (map whole_triple ?nd)"
    by simp
  also have "\<dots> = map voxel_at (not_duplicated (\<lambda>c. c) [] (map whole_triple rs))"
    by (simp only: e)
  finally have "map (\<lambda>r. voxel_at (whole_triple r)) ?nd
               = map voxel_at (not_duplicated (\<lambda>c. c) [] (map whole_triple rs))" .
  then show ?thesis
    by (simp add: voxel_grid_def astype_int_finite[OF f] grid_of_def)
qed

lemma voxelize_finite:
  assumes "bin_xy \<noteq> 0" "bin_z \<noteq> 0"
  shows "\<forall>r\<in>set (voxelize locs bin_xy bin_z). is_finite_row r"
    and "map whole_triple (voxelize locs bin_xy bin_z) = map (floor_triple bin_xy bin_z) locs"
  using assms
  by (simp_all add: voxelize_def is_finite_row_def floor_divide_def whole_triple_def floor_triple_def
        loc.extend_def)


lemma not_duplicated_props:
  "distinct (map key (not_duplicated key seen rs))
   \<and> set (map key (not_duplicated key seen rs)) = set (map key rs) - set seen"
proof (induction key seen rs rule: not_duplicated.induct)
  case (1 key seen)
  then show ?case by simp
next
  case (2 key seen r rs)
  then show ?case by auto
qed


lemma not_duplicated_Nil_iff: "not_duplicated key [] rs = [] \<longleftrightarrow> rs = []"
  by (cases rs) auto


section \<open>Origin normalization\<close>

lemma length_auto_origin_df [simp]: "length (auto_origin_df df) = length df"
  by (simp add: auto_origin_df_def Let_def)

lemma auto_origin_df_Nil_iff [simp]: "auto_origin_df df = [] \<longleftrightarrow> df = []"
  by (simp add: auto_origin_df_def Let_def)


lemma coords_shift_voxel [simp]: "coords (shift_voxel k r) = shift_coords k (coords r)"
  by (simp add: shift_voxel_def shift_coords_def coords_def split: prod.splits)

lemma shift_voxel_zero [simp]: "shift_voxel (0, 0, 0) r = r"
  by (simp add: shift_voxel_def)










section \<open>The voxel grid of a point set\<close>

lemma coords_voxel_at [simp]: "coords (voxel_at c) = c"
  by (simp add: voxel_at_def coords_def new_voxel_def split: prod.splits)


lemma distinct_not_duplicated_self: "distinct (not_duplicated (\<lambda>c. c) [] ts)"
  using not_duplicated_props[of "\<lambda>c. c" "[]" ts] by simp

lemma set_not_duplicated_self: "set (not_duplicated (\<lambda>c. c) [] ts) = set ts"
  using not_duplicated_props[of "\<lambda>c. c" "[]" ts] by simp

lemma grid_of_Nil_iff [simp]: "grid_of ts = [] \<longleftrightarrow> ts = []"
  by (simp add: grid_of_def not_duplicated_Nil_iff)


lemma length_grid_of: "length (grid_of ts) = card (set ts)"
proof -
  have "length (grid_of ts) = length (not_duplicated (\<lambda>c. c) [] ts)"
    by (simp add: grid_of_def)
  also have "\<dots> = card (set (not_duplicated (\<lambda>c. c) [] ts))"
    by (rule distinct_card[symmetric]) (rule distinct_not_duplicated_self)
  finally show ?thesis by (simp only: set_not_duplicated_self)
qed












section \<open>One sample of the sweep\<close>


lemma voxelize_Nil [simp]: "voxelize [] bin_xy bin_z = []"
  by (simp add: voxelize_def)

lemma voxelize_zero_bin:
  assumes "bin_xy = 0 \<or> bin_z = 0" "locs \<noteq> []"
  shows "voxel_grid (voxelize locs bin_xy bin_z) = Inl ValueError"
proof -
  obtain p ps where locs: "locs = p # ps" using assms(2) by (cases locs) auto
  let ?r = "loc.extend p \<lparr>x_bin = floor_divide (x_nm p) bin_xy,
                  y_bin = floor_divide (y_nm p) bin_xy,
                  z_bin = floor_divide (z_nm p) bin_z\<rparr>"
  have "\<not> is_finite_row ?r"
    using assms(1) by (auto simp: is_finite_row_def floor_divide_def loc.extend_def)
  moreover have "?r \<in> set (not_duplicated bin_triple [] (voxelize locs bin_xy bin_z))"
    by (simp add: locs voxelize_def)
  ultimately have "astype_int (not_duplicated bin_triple [] (voxelize locs bin_xy bin_z)) = Inl ValueError"
    by (intro astype_int_nonfinite) blast
  then show ?thesis by (simp add: voxel_grid_def)
qed

lemma count_exposed_faces_zero_bin:
  assumes "bin_xy = 0 \<or> bin_z = 0" "locs \<noteq> []"
  shows "count_exposed_faces (voxelize locs bin_xy bin_z) = Inl ValueError"
  by (simp add: count_exposed_faces_def voxelize_zero_bin[OF assms])

lemma face_summary_bounds:
  assumes "face_summary out = (out', total_vox, surf_vox, xy, z)"
  shows "out' = out" "total_vox = int (length out)" "0 \<le> surf_vox" "surf_vox \<le> total_vox"
    "xy = sum_list (map xy_faces out)" "z = sum_list (map z_faces out)"
  using assms by (auto simp: face_summary_def)




section \<open>The stepped range and the sweep loop\<close>










lemma voxel_grid_voxelize:
  assumes "bin_xy \<noteq> 0" "bin_z \<noteq> 0"
  shows "voxel_grid (voxelize locs bin_xy bin_z) = Inr (grid_of (map (floor_triple bin_xy bin_z) locs))"
  using voxel_grid_finite[OF voxelize_finite(1)[OF assms], of locs]
  by (simp only: voxelize_finite(2)[OF assms])

lemma voxel_scan_zero_step: "voxel_scan locs bin_min bin_max 0 = Inl ValueError"
  by (simp add: voxel_scan_def py_range_def)

lemma voxel_scan_empty_range:
  assumes "0 < step" "bin_max \<le> bin_min"
  shows "voxel_scan locs bin_min bin_max step = Inr ([], [], [], [], [])"
  using assms by (simp add: voxel_scan_def py_range_def range_length_def)

section \<open>Sums over the sub-groups of a cluster\<close>








section \<open>Translation and repeated runs\<close>





lemma sort_sorted_id: "sorted xs \<Longrightarrow> sort xs = xs"
  by (simp add: sorted_sort_id)


section \<open>A batch of one cluster\<close>

lemma voxel_scan_example:
  "voxel_scan [mk_loc 0 0 0, mk_loc 10 0 0, mk_loc 20 0 0] 10 20 5
     = Inr ([10, 15], [3000, 6750], [1400, 2250],
            [Stov (real_of_int 1400 / real_of_int 3000 powr (2 / 3)),
             Stov (real_of_int 2250 / real_of_int 6750 powr (2 / 3))],
            [0, 0])"
proof -
  let ?locs = "[mk_loc 0 0 0, mk_loc 10 0 0, mk_loc 20 0 0]"
  have c10: "count_exposed_faces (voxelize ?locs (of_int 10) (of_int 10))
             = Inr ([\<lparr>x_vox = 1, y_vox = 1, z_vox = 1, x_faces = 1, y_faces = 2, z_faces = 2\<rparr>,
                     \<lparr>x_vox = 2, y_vox = 1, z_vox = 1, x_faces = 0, y_faces = 2, z_faces = 2\<rparr>,
                     \<lparr>x_vox = 3, y_vox = 1, z_vox = 1, x_faces = 1, y_faces = 2, z_faces = 2\<rparr>],
                    3, 3, 8, 6)"
    by code_simp
  have c15: "count_exposed_faces (voxelize ?locs (of_int 15) (of_int 15))
             = Inr ([\<lparr>x_vox = 1, y_vox = 1, z_vox = 1, x_faces = 1, y_faces = 2, z_faces = 2\<rparr>,
                     \<lparr>x_vox = 2, y_vox = 1, z_vox = 1, x_faces = 1, y_faces = 2, z_faces = 2\<rparr>],
                    2, 2, 6, 4)"
    by code_simp
  have s10: "scan_bin ?locs 10
               = Inr (3000, 1400, Stov (real_of_int 1400 / real_of_int 3000 powr (2 / 3)), 0)"
    unfolding scan_bin_def c10 by (simp add: Let_def normalized_stov_def)
  have s15: "scan_bin ?locs 15
               = Inr (6750, 2250, Stov (real_of_int 2250 / real_of_int 6750 powr (2 / 3)), 0)"
    unfolding scan_bin_def c15 by (simp add: Let_def normalized_stov_def)
  have r: "py_range 10 20 5 = Inr [10, 15]" by code_simp
  show ?thesis by (simp add: voxel_scan_def r s10 s15)
qed

lemma mk_loc_labels [simp]: "hdbscan (mk_loc x y z) = 0" "decode_id (mk_loc x y z) = 0"
  by (simp_all add: mk_loc_def)

lemma groupby_example:
  "groupby decode_id [mk_loc 0 0 0, mk_loc 10 0 0, mk_loc 20 0 0]
     = [(0, [mk_loc 0 0 0, mk_loc 10 0 0, mk_loc 20 0 0])]"
  by code_simp


section \<open>Claims\<close>

text \<open>
  C1.  For every voxel grid and each of the three axes, one pass of the scanner returns the
  scanned columns in key order, where a column is the non-empty list of the rows of the
  grid that share the two coordinates orthogonal to the axis.  The column is sorted
  ascending by the scan-axis coordinate, and the row at position \<open>i\<close> of the sorted
  column comes back with its coordinates unchanged and with the face count of the
  column rule: one for being first, one for being last, one for each neighbour in the
  sorted order that is further away than 1, nothing for a neighbour at distance 1.  A
  column of one voxel gets 2.  The scanned column has as many rows as the column: no
  voxel is created for a gap, whatever its width.
\<close>

theorem scan_faces_column_rule:
  assumes "is_axis axis"
  shows "scan_faces (Frame grid) axis
     = Inr (frame_of (concat (map (\<lambda>(k, col). scan_group axis (face_col_of axis) col)
                              (groupby (group_key (fixed_columns_of axis)) grid))))
   \<and> (\<forall>(k, col) \<in> set (groupby (group_key (fixed_columns_of axis)) grid).
        col \<noteq> []
        \<and> col = filter (\<lambda>r. group_key (fixed_columns_of axis) r = k) grid
        \<and> (let s = sort_key (\<lambda>r. cell r axis) col;
                vs = map (\<lambda>r. cell r axis) s;
                out = scan_group axis (face_col_of axis) col
            in sorted vs \<and> set s = set col \<and> length s = length col
               \<and> length out = length col
               \<and> (\<forall>i<length col.
                     out ! i = assign (face_col_of axis) (column_rule vs i) (s ! i)
                     \<and> cell (out ! i) (face_col_of axis) = column_rule vs i
                     \<and> x_vox (out ! i) = x_vox (s ! i)
                     \<and> y_vox (out ! i) = y_vox (s ! i)
                     \<and> z_vox (out ! i) = z_vox (s ! i))
               \<and> (length col = 1 \<longrightarrow> cell (out ! 0) (face_col_of axis) = 2)))"
proof (intro conjI)
  have "length (scan_rows axis (fixed_columns_of axis) (face_col_of axis) grid) = length grid"
    by simp
  then have "(scan_rows axis (fixed_columns_of axis) (face_col_of axis) grid = []) = (grid = [])"
    by (metis length_0_conv)
  then show "scan_faces (Frame grid) axis
     = Inr (frame_of (concat (map (\<lambda>(k, col). scan_group axis (face_col_of axis) col)
                              (groupby (group_key (fixed_columns_of axis)) grid))))"
    by (simp add: scan_faces_eq scan_faces_1d_Frame frame_of_def scan_rows_def)
next
  show "\<forall>(k, col) \<in> set (groupby (group_key (fixed_columns_of axis)) grid).
        col \<noteq> []
        \<and> col = filter (\<lambda>r. group_key (fixed_columns_of axis) r = k) grid
        \<and> (let s = sort_key (\<lambda>r. cell r axis) col;
                vs = map (\<lambda>r. cell r axis) s;
                out = scan_group axis (face_col_of axis) col
            in sorted vs \<and> set s = set col \<and> length s = length col
               \<and> length out = length col
               \<and> (\<forall>i<length col.
                     out ! i = assign (face_col_of axis) (column_rule vs i) (s ! i)
                     \<and> cell (out ! i) (face_col_of axis) = column_rule vs i
                     \<and> x_vox (out ! i) = x_vox (s ! i)
                     \<and> y_vox (out ! i) = y_vox (s ! i)
                     \<and> z_vox (out ! i) = z_vox (s ! i))
               \<and> (length col = 1 \<longrightarrow> cell (out ! 0) (face_col_of axis) = 2))"
  proof (clarify, intro conjI)
    fix k col
    assume m: "(k, col) \<in> set (groupby (group_key (fixed_columns_of axis)) grid)"
    then have k: "k \<in> group_key (fixed_columns_of axis) ` set grid"
      and col: "col = filter (\<lambda>r. group_key (fixed_columns_of axis) r = k) grid"
      by (auto simp: groupby_def)
    show "col = filter (\<lambda>r. group_key (fixed_columns_of axis) r = k) grid" by (rule col)
    show "col \<noteq> []" using k col by (auto simp: filter_empty_conv)
    let ?fc = "face_col_of axis"
    let ?s = "sort_key (\<lambda>r. cell r axis) col"
    let ?vs = "map (\<lambda>r. cell r axis) ?s"
    have rows: "\<forall>i<length col.
          scan_group axis ?fc col ! i = assign ?fc (column_rule ?vs i) (?s ! i)
          \<and> cell (scan_group axis ?fc col ! i) ?fc = column_rule ?vs i
          \<and> x_vox (scan_group axis ?fc col ! i) = x_vox (?s ! i)
          \<and> y_vox (scan_group axis ?fc col ! i) = y_vox (?s ! i)
          \<and> z_vox (scan_group axis ?fc col ! i) = z_vox (?s ! i)"
      by (simp add: scan_group_nth)
    have single: "length col = 1 \<longrightarrow> cell (scan_group axis ?fc col ! 0) ?fc = 2"
      by (simp add: scan_group_nth column_rule_def)
    show "let s = ?s; vs = map (\<lambda>r. cell r axis) s; out = scan_group axis ?fc col
          in sorted vs \<and> set s = set col \<and> length s = length col
             \<and> length out = length col
             \<and> (\<forall>i<length col.
                   out ! i = assign ?fc (column_rule vs i) (s ! i)
                   \<and> cell (out ! i) ?fc = column_rule vs i
                   \<and> x_vox (out ! i) = x_vox (s ! i)
                   \<and> y_vox (out ! i) = y_vox (s ! i)
                   \<and> z_vox (out ! i) = z_vox (s ! i))
             \<and> (length col = 1 \<longrightarrow> cell (out ! 0) ?fc = 2)"
      unfolding Let_def using rows single by simp
  qed
qed

theorem scan_faces_column_rule_witness:
  "is_axis X_vox
   \<and> scan_faces (Frame [new_voxel 4 1 1, new_voxel 1 1 1, new_voxel 2 1 1, new_voxel 9 3 1]) X_vox
     = Inr (Frame [\<lparr>x_vox = 1, y_vox = 1, z_vox = 1, x_faces = 1, y_faces = 0, z_faces = 0\<rparr>,
                   \<lparr>x_vox = 2, y_vox = 1, z_vox = 1, x_faces = 1, y_faces = 0, z_faces = 0\<rparr>,
                   \<lparr>x_vox = 4, y_vox = 1, z_vox = 1, x_faces = 2, y_faces = 0, z_faces = 0\<rparr>,
                   \<lparr>x_vox = 9, y_vox = 3, z_vox = 1, x_faces = 2, y_faces = 0, z_faces = 0\<rparr>])
   \<and> ([1, 1], [new_voxel 4 1 1, new_voxel 1 1 1, new_voxel 2 1 1])
        \<in> set (groupby (group_key (fixed_columns_of X_vox))
                  [new_voxel 4 1 1, new_voxel 1 1 1, new_voxel 2 1 1, new_voxel 9 3 1])
   \<and> (2::nat) < length [new_voxel 4 1 1, new_voxel 1 1 1, new_voxel 2 1 1]
   \<and> scan_group X_vox X_faces [new_voxel 4 1 1, new_voxel 1 1 1, new_voxel 2 1 1] ! 2
        = \<lparr>x_vox = 4, y_vox = 1, z_vox = 1, x_faces = 2, y_faces = 0, z_faces = 0\<rparr>"
proof -
  let ?g = "[new_voxel 4 1 1, new_voxel 1 1 1, new_voxel 2 1 1, new_voxel 9 3 1]"
  let ?col = "[new_voxel 4 1 1, new_voxel 1 1 1, new_voxel 2 1 1]"
  have ax: "is_axis X_vox" by (simp add: is_axis_def)
  note T = scan_faces_column_rule[OF ax, of ?g]
  have mem: "([1, 1], ?col) \<in> set (groupby (group_key (fixed_columns_of X_vox)) ?g)"
    by code_simp
  have len: "(2::nat) < length ?col" by simp
  have fc: "face_col_of X_vox = X_faces" by (simp add: face_col_of_def)
  note C = bspec[OF conjunct2[OF T] mem, unfolded prod.case Let_def]
  note R = C[THEN conjunct2, THEN conjunct2, THEN conjunct2, THEN conjunct2, THEN conjunct2,
             THEN conjunct2, THEN conjunct1, THEN spec, THEN mp, OF len, THEN conjunct1]
  have "assign (face_col_of X_vox)
              (column_rule (map (\<lambda>r. cell r X_vox) (sort_key (\<lambda>r. cell r X_vox) ?col)) 2)
              (sort_key (\<lambda>r. cell r X_vox) ?col ! 2)
         = \<lparr>x_vox = 4, y_vox = 1, z_vox = 1, x_faces = 2, y_faces = 0, z_faces = 0\<rparr>"
    by code_simp
  with R have row: "scan_group X_vox X_faces ?col ! 2
        = \<lparr>x_vox = 4, y_vox = 1, z_vox = 1, x_faces = 2, y_faces = 0, z_faces = 0\<rparr>"
    unfolding fc by (rule trans)
  have "Inr (frame_of (concat (map (\<lambda>(k, col). scan_group X_vox (face_col_of X_vox) col)
                              (groupby (group_key (fixed_columns_of X_vox)) ?g))))
         = (Inr (Frame [\<lparr>x_vox = 1, y_vox = 1, z_vox = 1, x_faces = 1, y_faces = 0, z_faces = 0\<rparr>,
                   \<lparr>x_vox = 2, y_vox = 1, z_vox = 1, x_faces = 1, y_faces = 0, z_faces = 0\<rparr>,
                   \<lparr>x_vox = 4, y_vox = 1, z_vox = 1, x_faces = 2, y_faces = 0, z_faces = 0\<rparr>,
                   \<lparr>x_vox = 9, y_vox = 3, z_vox = 1, x_faces = 2, y_faces = 0, z_faces = 0\<rparr>]) :: error + data_frame)"
    by code_simp
  with conjunct1[OF T] have all: "scan_faces (Frame ?g) X_vox
     = Inr (Frame [\<lparr>x_vox = 1, y_vox = 1, z_vox = 1, x_faces = 1, y_faces = 0, z_faces = 0\<rparr>,
                   \<lparr>x_vox = 2, y_vox = 1, z_vox = 1, x_faces = 1, y_faces = 0, z_faces = 0\<rparr>,
                   \<lparr>x_vox = 4, y_vox = 1, z_vox = 1, x_faces = 2, y_faces = 0, z_faces = 0\<rparr>,
                   \<lparr>x_vox = 9, y_vox = 3, z_vox = 1, x_faces = 2, y_faces = 0, z_faces = 0\<rparr>])"
    by (rule trans)
  show ?thesis
    by (intro conjI) (rule ax, rule all, rule mem, rule len, rule row)
qed

text \<open>
  C2.  For every deduplicated voxel grid: a non-empty grid is scanned without error,
  and whenever \<^verbatim>\<open>scan_faces_all\<close> returns a frame, every voxel of it has on each
  axis a face count of 0, 1 or 2, and for every axis and every column key the column
  of the output holds the voxels of the column of the grid and its face counts of
  that axis add up to twice the number of maximal contiguous runs of the column.
\<close>

theorem face_counts_invariant:
  assumes "distinct (map coords grid)"
  shows "(grid \<noteq> [] \<longrightarrow> (\<exists>out. scan_faces_all (Frame grid) = Inr (Frame out)))
     \<and> (\<forall>out. scan_faces_all (Frame grid) = Inr (Frame out) \<longrightarrow>
          (\<forall>r\<in>set out. x_faces r \<in> {0, 1, 2} \<and> y_faces r \<in> {0, 1, 2} \<and> z_faces r \<in> {0, 1, 2})
          \<and> (\<forall>axis k. is_axis axis \<longrightarrow>
                set (map coords (filter (\<lambda>r. group_key (fixed_columns_of axis) r = k) out))
                  = set (map coords (filter (\<lambda>r. group_key (fixed_columns_of axis) r = k) grid))
                \<and> sum_list (map (\<lambda>r. cell r (face_col_of axis))
                      (filter (\<lambda>r. group_key (fixed_columns_of axis) r = k) out))
                  = 2 * int (maximal_runs (map (\<lambda>r. cell r axis)
                      (filter (\<lambda>r. group_key (fixed_columns_of axis) r = k) grid)))))"
proof (intro conjI allI impI)
  assume "grid \<noteq> []"
  then show "\<exists>out. scan_faces_all (Frame grid) = Inr (Frame out)"
    by (simp add: scan_faces_all_Frame)
next
  fix out assume "scan_faces_all (Frame grid) = Inr (Frame out)"
  then have out: "out = scan_all_rows grid"
    by (simp add: scan_faces_all_Frame split: if_splits)
  show "\<forall>r\<in>set out. x_faces r \<in> {0, 1, 2} \<and> y_faces r \<in> {0, 1, 2} \<and> z_faces r \<in> {0, 1, 2}"
  proof
    fix r assume "r \<in> set out"
    then have r: "r = exposed_voxel (coords ` set grid) (coords r)"
      using scan_all_rows_props(3)[OF assms] out by simp
    have "x_faces (exposed_voxel (coords ` set grid) (coords r)) \<in> {0, 1, 2}"
         "y_faces (exposed_voxel (coords ` set grid) (coords r)) \<in> {0, 1, 2}"
         "z_faces (exposed_voxel (coords ` set grid) (coords r)) \<in> {0, 1, 2}"
      using exposed_faces_range by (simp_all add: exposed_voxel_def split: prod.splits)
    then show "x_faces r \<in> {0, 1, 2} \<and> y_faces r \<in> {0, 1, 2} \<and> z_faces r \<in> {0, 1, 2}"
      unfolding arg_cong[OF r, of x_faces, symmetric] arg_cong[OF r, of y_faces, symmetric]
        arg_cong[OF r, of z_faces, symmetric] by (intro conjI)
  qed
next
  fix out axis k
  assume "scan_faces_all (Frame grid) = Inr (Frame out)" and ax: "is_axis axis"
  then have out: "out = scan_all_rows grid"
    by (simp add: scan_faces_all_Frame split: if_splits)
  let ?key = "group_key (fixed_columns_of axis)"
  show "set (map coords (filter (\<lambda>r. ?key r = k) out)) = set (map coords (filter (\<lambda>r. ?key r = k) grid))"
  proof -
    have e: "coords ` set out = coords ` set grid"
      using scan_all_rows_props(1)[OF assms] out by simp
    show ?thesis
    proof (intro equalityI subsetI)
      fix c assume "c \<in> set (map coords (filter (\<lambda>r. ?key r = k) out))"
      then obtain r where r: "r \<in> set out" "?key r = k" "c = coords r" by auto
      then have "coords r \<in> coords ` set grid" using e by blast
      then obtain r0 where r0: "r0 \<in> set grid" "coords r0 = coords r" by (auto simp: image_iff)
      then have "?key r0 = k" using group_key_coords[OF r0(2), of axis] r(2) by simp
      then show "c \<in> set (map coords (filter (\<lambda>r. ?key r = k) grid))"
        using r0 r(3) by (auto simp: image_iff)
    next
      fix c assume "c \<in> set (map coords (filter (\<lambda>r. ?key r = k) grid))"
      then obtain r where r: "r \<in> set grid" "?key r = k" "c = coords r" by auto
      then have "coords r \<in> coords ` set out" using e by blast
      then obtain r0 where r0: "r0 \<in> set out" "coords r0 = coords r" by (auto simp: image_iff)
      then have "?key r0 = k" using group_key_coords[OF r0(2), of axis] r(2) by simp
      then show "c \<in> set (map coords (filter (\<lambda>r. ?key r = k) out))"
        using r0 r(3) by (auto simp: image_iff)
    qed
  qed
next
  fix out axis k
  assume "scan_faces_all (Frame grid) = Inr (Frame out)" and ax: "is_axis axis"
  then have out: "out = scan_all_rows grid"
    by (simp add: scan_faces_all_Frame split: if_splits)
  show "sum_list (map (\<lambda>r. cell r (face_col_of axis))
                      (filter (\<lambda>r. group_key (fixed_columns_of axis) r = k) out))
                  = 2 * int (maximal_runs (map (\<lambda>r. cell r axis)
                      (filter (\<lambda>r. group_key (fixed_columns_of axis) r = k) grid)))"
    unfolding out by (rule column_sum[OF ax assms])
qed

theorem face_counts_invariant_witness:
  "distinct (map coords [new_voxel 4 1 1, new_voxel 1 1 1, new_voxel 2 1 1, new_voxel 1 2 1])
   \<and> scan_faces_all (Frame [new_voxel 4 1 1, new_voxel 1 1 1, new_voxel 2 1 1, new_voxel 1 2 1])
       = Inr (Frame [\<lparr>x_vox = 1, y_vox = 1, z_vox = 1, x_faces = 1, y_faces = 1, z_faces = 2\<rparr>,
                     \<lparr>x_vox = 1, y_vox = 2, z_vox = 1, x_faces = 2, y_faces = 1, z_faces = 2\<rparr>,
                     \<lparr>x_vox = 2, y_vox = 1, z_vox = 1, x_faces = 1, y_faces = 2, z_faces = 2\<rparr>,
                     \<lparr>x_vox = 4, y_vox = 1, z_vox = 1, x_faces = 2, y_faces = 2, z_faces = 2\<rparr>])
   \<and> is_axis X_vox
   \<and> sum_list (map (\<lambda>r. cell r (face_col_of X_vox))
         (filter (\<lambda>r. group_key (fixed_columns_of X_vox) r = [1, 1])
            [\<lparr>x_vox = 1, y_vox = 1, z_vox = 1, x_faces = 1, y_faces = 1, z_faces = 2\<rparr>,
             \<lparr>x_vox = 1, y_vox = 2, z_vox = 1, x_faces = 2, y_faces = 1, z_faces = 2\<rparr>,
             \<lparr>x_vox = 2, y_vox = 1, z_vox = 1, x_faces = 1, y_faces = 2, z_faces = 2\<rparr>,
             \<lparr>x_vox = 4, y_vox = 1, z_vox = 1, x_faces = 2, y_faces = 2, z_faces = 2\<rparr>])) = 4"
proof -
  let ?g = "[new_voxel 4 1 1, new_voxel 1 1 1, new_voxel 2 1 1, new_voxel 1 2 1]"
  let ?out = "[\<lparr>x_vox = 1, y_vox = 1, z_vox = 1, x_faces = 1, y_faces = 1, z_faces = 2\<rparr>,
               \<lparr>x_vox = 1, y_vox = 2, z_vox = 1, x_faces = 2, y_faces = 1, z_faces = 2\<rparr>,
               \<lparr>x_vox = 2, y_vox = 1, z_vox = 1, x_faces = 1, y_faces = 2, z_faces = 2\<rparr>,
               \<lparr>x_vox = 4, y_vox = 1, z_vox = 1, x_faces = 2, y_faces = 2, z_faces = 2\<rparr>]"
  have d: "distinct (map coords ?g)" by code_simp
  have s: "scan_faces_all (Frame ?g) = Inr (Frame ?out)" by code_simp
  have ax: "is_axis X_vox" by (simp add: is_axis_def)
  note U = face_counts_invariant[OF d, THEN conjunct2, THEN spec, THEN mp, OF s]
  note C = U[THEN conjunct2, THEN spec, THEN spec, THEN mp, OF ax, THEN conjunct2]
  have e: "2 * int (maximal_runs (map (\<lambda>r. cell r X_vox)
              (filter (\<lambda>r. group_key (fixed_columns_of X_vox) r = [1, 1]) ?g))) = 4"
    by code_simp
  show ?thesis
    by (intro conjI) (rule d, rule s, rule ax, rule trans[OF C e])
qed

text \<open>
  C10.  For every deduplicated voxel grid: a non-empty grid is scanned without error,
  and whenever \<^verbatim>\<open>scan_faces_all\<close> returns a frame, its rows carry exactly the
  positions of the grid, each once, in ascending order.  Each single pass returns
  the positions of its input, each once, and every row it returns is a row of its
  input with only the face column of the pass written.
\<close>

theorem scan_faces_all_preserves_voxels:
  assumes "distinct (map coords grid)"
  shows "(grid \<noteq> [] \<longrightarrow> (\<exists>out. scan_faces_all (Frame grid) = Inr (Frame out)))
     \<and> (\<forall>out. scan_faces_all (Frame grid) = Inr (Frame out) \<longrightarrow>
          distinct (map coords out) \<and> set (map coords out) = set (map coords grid)
          \<and> length out = length grid \<and> map coords out = sort (map coords grid))
     \<and> (\<forall>axis. is_axis axis \<longrightarrow>
          (\<exists>rows. scan_faces (Frame grid) axis = Inr (frame_of rows)
             \<and> distinct (map coords rows) \<and> set (map coords rows) = set (map coords grid)
             \<and> length rows = length grid
             \<and> (\<forall>r\<in>set rows. \<exists>r0\<in>set grid. \<exists>v. r = assign (face_col_of axis) v r0)))"
proof (intro conjI allI impI)
  assume "grid \<noteq> []"
  then show "\<exists>out. scan_faces_all (Frame grid) = Inr (Frame out)"
    by (simp add: scan_faces_all_Frame)
next
  fix out assume "scan_faces_all (Frame grid) = Inr (Frame out)"
  then have out: "out = scan_all_rows grid"
    by (simp add: scan_faces_all_Frame split: if_splits)
  show "distinct (map coords out)" unfolding out by (rule scan_all_rows_props(2)[OF assms])
  show "set (map coords out) = set (map coords grid)"
    unfolding out using scan_all_rows_props(1)[OF assms] by simp
  show "length out = length grid" unfolding out by simp
  show "map coords out = sort (map coords grid)"
    unfolding out by (rule map_coords_scan_all_rows[OF assms])
next
  fix axis assume ax: "is_axis axis"
  let ?rows = "scan_rows axis (fixed_columns_of axis) (face_col_of axis) grid"
  have "(?rows = []) = (grid = [])"
    by (metis length_0_conv length_scan_rows)
  then have f: "scan_faces (Frame grid) axis = Inr (frame_of ?rows)"
    by (simp add: scan_faces_eq scan_faces_1d_Frame frame_of_def)
  show "\<exists>rows. scan_faces (Frame grid) axis = Inr (frame_of rows)
             \<and> distinct (map coords rows) \<and> set (map coords rows) = set (map coords grid)
             \<and> length rows = length grid
             \<and> (\<forall>r\<in>set rows. \<exists>r0\<in>set grid. \<exists>v. r = assign (face_col_of axis) v r0)"
  proof (intro exI[of _ ?rows] conjI)
    show "scan_faces (Frame grid) axis = Inr (frame_of ?rows)" by (rule f)
    show "distinct (map coords ?rows)" by (rule distinct_coords_scan_rows[OF ax assms])
    show "set (map coords ?rows) = set (map coords grid)"
      using coords_set_scan_rows[OF ax assms] by simp
    show "length ?rows = length grid" by simp
    show "\<forall>r\<in>set ?rows. \<exists>r0\<in>set grid. \<exists>v. r = assign (face_col_of axis) v r0"
      by (rule scan_rows_from_grid[OF ax assms])
  qed
qed

theorem scan_faces_all_preserves_voxels_witness:
  "distinct (map coords [new_voxel 4 1 1, new_voxel 1 1 1, new_voxel 2 1 1, new_voxel 1 2 1])
   \<and> scan_faces_all (Frame [new_voxel 4 1 1, new_voxel 1 1 1, new_voxel 2 1 1, new_voxel 1 2 1])
       = Inr (Frame [\<lparr>x_vox = 1, y_vox = 1, z_vox = 1, x_faces = 1, y_faces = 1, z_faces = 2\<rparr>,
                     \<lparr>x_vox = 1, y_vox = 2, z_vox = 1, x_faces = 2, y_faces = 1, z_faces = 2\<rparr>,
                     \<lparr>x_vox = 2, y_vox = 1, z_vox = 1, x_faces = 1, y_faces = 2, z_faces = 2\<rparr>,
                     \<lparr>x_vox = 4, y_vox = 1, z_vox = 1, x_faces = 2, y_faces = 2, z_faces = 2\<rparr>])
   \<and> map coords [\<lparr>x_vox = 1, y_vox = 1, z_vox = 1, x_faces = 1, y_faces = 1, z_faces = 2\<rparr>,
                  \<lparr>x_vox = 1, y_vox = 2, z_vox = 1, x_faces = 2, y_faces = 1, z_faces = 2\<rparr>,
                  \<lparr>x_vox = 2, y_vox = 1, z_vox = 1, x_faces = 1, y_faces = 2, z_faces = 2\<rparr>,
                  \<lparr>x_vox = 4, y_vox = 1, z_vox = 1, x_faces = 2, y_faces = 2, z_faces = 2\<rparr>]
       = [(1, 1, 1), (1, 2, 1), (2, 1, 1), (4, 1, 1)]"
proof -
  let ?g = "[new_voxel 4 1 1, new_voxel 1 1 1, new_voxel 2 1 1, new_voxel 1 2 1]"
  let ?out = "[\<lparr>x_vox = 1, y_vox = 1, z_vox = 1, x_faces = 1, y_faces = 1, z_faces = 2\<rparr>,
               \<lparr>x_vox = 1, y_vox = 2, z_vox = 1, x_faces = 2, y_faces = 1, z_faces = 2\<rparr>,
               \<lparr>x_vox = 2, y_vox = 1, z_vox = 1, x_faces = 1, y_faces = 2, z_faces = 2\<rparr>,
               \<lparr>x_vox = 4, y_vox = 1, z_vox = 1, x_faces = 2, y_faces = 2, z_faces = 2\<rparr>]"
  have d: "distinct (map coords ?g)" by code_simp
  have s: "scan_faces_all (Frame ?g) = Inr (Frame ?out)" by code_simp
  note U = scan_faces_all_preserves_voxels[OF d, THEN conjunct2, THEN conjunct1, THEN spec, THEN mp, OF s]
  note C = U[THEN conjunct2, THEN conjunct2, THEN conjunct2]
  have e: "sort (map coords ?g) = [(1, 1, 1), (1, 2, 1), (2, 1, 1), (4, 1, 1)]"
    by code_simp
  show ?thesis
    by (intro conjI) (rule d, rule s, rule trans[OF C e])
qed








text \<open>
  C6, as the claim states it, fails: with the negative bin size -15 the grid is built
  without any error, and the sweep from 20 to 10 with step 5 returns five empty lists
  instead of an error.
\<close>

theorem no_argument_validation_counterexample:
  "voxel_grid (voxelize [mk_loc 0 0 0, mk_loc 10 0 0] (- 15) (- 15))
     = Inr [new_voxel 2 1 1, new_voxel 1 1 1]
   \<and> voxel_scan [mk_loc 0 0 0] 20 10 5 = Inr ([], [], [], [], [])"
proof
  show "voxel_grid (voxelize [mk_loc 0 0 0, mk_loc 10 0 0] (- 15) (- 15))
     = Inr [new_voxel 2 1 1, new_voxel 1 1 1]"
    by code_simp
  show "voxel_scan [mk_loc 0 0 0] 20 10 5 = Inr ([], [], [], [], [])"
    by (simp add: voxel_scan_def py_range_def range_length_def)
qed

text \<open>
  C6, amended.  Neither \<^verbatim>\<open>voxelize\<close> nor \<^verbatim>\<open>voxel_scan\<close> checks its arguments.  For
  bin sizes other than 0, negative ones included, the grid is built and holds one voxel
  per distinct index triple.  With a bin size of 0 and a non-empty point set the
  indices are not finite and the integer conversion in \<^verbatim>\<open>count_exposed_faces\<close> raises
  \<^verbatim>\<open>ValueError\<close>.  A step of 0 makes \<^verbatim>\<open>range\<close> raise \<^verbatim>\<open>ValueError\<close> before any bin
  is processed; a positive step with \<open>bin_max \<le> bin_min\<close> gives five empty lists.
\<close>

theorem no_argument_validation:
  "(bin_xy \<noteq> 0 \<and> bin_z \<noteq> 0 \<longrightarrow>
      (\<exists>grid. voxel_grid (voxelize locs bin_xy bin_z) = Inr grid
         \<and> length grid = card (floor_triple bin_xy bin_z ` set locs)))
   \<and> ((bin_xy = 0 \<or> bin_z = 0) \<and> locs \<noteq> [] \<longrightarrow>
        voxel_grid (voxelize locs bin_xy bin_z) = Inl ValueError
        \<and> count_exposed_faces (voxelize locs bin_xy bin_z) = Inl ValueError)
   \<and> voxel_scan locs bin_min bin_max 0 = Inl ValueError
   \<and> (0 < step \<and> bin_max \<le> bin_min \<longrightarrow>
        voxel_scan locs bin_min bin_max step = Inr ([], [], [], [], []))"
proof (intro conjI impI)
  assume "bin_xy \<noteq> 0 \<and> bin_z \<noteq> 0"
  then have g: "voxel_grid (voxelize locs bin_xy bin_z)
                  = Inr (grid_of (map (floor_triple bin_xy bin_z) locs))"
    by (simp add: voxel_grid_voxelize)
  have "length (grid_of (map (floor_triple bin_xy bin_z) locs))
          = card (floor_triple bin_xy bin_z ` set locs)"
    using length_grid_of[of "map (floor_triple bin_xy bin_z) locs"] by simp
  then show "\<exists>grid. voxel_grid (voxelize locs bin_xy bin_z) = Inr grid
         \<and> length grid = card (floor_triple bin_xy bin_z ` set locs)"
    using g by blast
next
  assume a: "(bin_xy = 0 \<or> bin_z = 0) \<and> locs \<noteq> []"
  then show "voxel_grid (voxelize locs bin_xy bin_z) = Inl ValueError"
    by (intro voxelize_zero_bin) simp_all
  from a show "count_exposed_faces (voxelize locs bin_xy bin_z) = Inl ValueError"
    by (intro count_exposed_faces_zero_bin) simp_all
next
  show "voxel_scan locs bin_min bin_max 0 = Inl ValueError" by (rule voxel_scan_zero_step)
next
  assume "0 < step \<and> bin_max \<le> bin_min"
  then show "voxel_scan locs bin_min bin_max step = Inr ([], [], [], [], [])"
    by (intro voxel_scan_empty_range) simp_all
qed

theorem no_argument_validation_witness:
  "(- 15 :: rat) \<noteq> 0
   \<and> card (floor_triple (- 15) (- 15) ` set [mk_loc 0 0 0, mk_loc 10 0 0, mk_loc 5 0 0]) = 2
   \<and> ((0::rat) = 0 \<or> (15::rat) = 0) \<and> [mk_loc 0 0 0] \<noteq> []
   \<and> count_exposed_faces (voxelize [mk_loc 0 0 0] 0 15) = Inl ValueError
   \<and> (0::int) < 5 \<and> (10::int) \<le> 20
   \<and> voxel_scan [mk_loc 0 0 0] 20 10 5 = Inr ([], [], [], [], [])"
proof -
  let ?locs = "[mk_loc 0 0 0, mk_loc 10 0 0, mk_loc 5 0 0]"
  have h1: "(- 15 :: rat) \<noteq> 0 \<and> (- 15 :: rat) \<noteq> 0" by simp
  from no_argument_validation[of "- 15" "- 15" ?locs, THEN conjunct1, THEN mp, OF h1]
  obtain grid where g: "voxel_grid (voxelize ?locs (- 15) (- 15)) = Inr grid"
    and l: "length grid = card (floor_triple (- 15) (- 15) ` set ?locs)" by blast
  have "voxel_grid (voxelize ?locs (- 15) (- 15)) = Inr [new_voxel 2 1 1, new_voxel 1 1 1]"
    by code_simp
  then have "grid = [new_voxel 2 1 1, new_voxel 1 1 1]" using g by simp
  then have c: "card (floor_triple (- 15) (- 15) ` set ?locs) = 2" using l by simp
  have h2: "((0::rat) = 0 \<or> (15::rat) = 0) \<and> [mk_loc 0 0 0] \<noteq> []" by simp
  note z = no_argument_validation[of 0 15 "[mk_loc 0 0 0]", THEN conjunct2, THEN conjunct1,
      THEN mp, OF h2, THEN conjunct2]
  have h3: "(0::int) < 5 \<and> (10::int) \<le> 20" by simp
  note e = no_argument_validation[of _ _ "[mk_loc 0 0 0]" 20 10 5, THEN conjunct2, THEN conjunct2,
      THEN conjunct2, THEN mp, OF h3]
  show ?thesis using h1 c h2 z h3 e by blast
qed






text \<open>
  C5.  A batch of one cluster of three points, swept over the bins 10 and 15, with a
  solver that does not converge: the \<^verbatim>\<open>RuntimeError\<close> is caught and the loop goes on,
  but nothing is appended to \<^verbatim>\<open>params\<close>, so the nine lists no longer have the same
  length and building the table raises \<^verbatim>\<open>ValueError\<close>.  No table is returned and no
  marker is recorded.
\<close>

theorem fit_failure_aborts_table:
  "analyze_vox_table (\<lambda>xs ys p0. Inl RuntimeError)
       [mk_loc 0 0 0, mk_loc 10 0 0, mk_loc 20 0 0] 10 20 5 1
     = (Inl ValueError :: error + (rat \<times> rat \<times> rat) vox_columns)
   \<and> analyze_group (\<lambda>xs ys p0. Inl RuntimeError) 10 20 5 1
       (0, [mk_loc 0 0 0, mk_loc 10 0 0, mk_loc 20 0 0]) no_columns
     = Inr (\<lparr>col_id = [0], col_total_locs = [3], col_clusters = [1],
            col_vox_bins = [[10, 15]], col_total_vol = [[3000, 6750]],
            col_total_surf = [[1400, 2250]],
            col_s_to_v = [[Stov (real_of_int 1400 / real_of_int 3000 powr (2 / 3)),
                           Stov (real_of_int 2250 / real_of_int 6750 powr (2 / 3))]],
            col_core_ratios = [[0, 0]],
            col_sigmoid_params = []\<rparr> :: (rat \<times> rat \<times> rat) vox_columns)"
proof
  have g: "analyze_group (\<lambda>xs ys p0. Inl RuntimeError) 10 20 5 1
       (0, [mk_loc 0 0 0, mk_loc 10 0 0, mk_loc 20 0 0]) no_columns
     = Inr (\<lparr>col_id = [0], col_total_locs = [3], col_clusters = [1],
            col_vox_bins = [[10, 15]], col_total_vol = [[3000, 6750]],
            col_total_surf = [[1400, 2250]],
            col_s_to_v = [[Stov (real_of_int 1400 / real_of_int 3000 powr (2 / 3)),
                           Stov (real_of_int 2250 / real_of_int 6750 powr (2 / 3))]],
            col_core_ratios = [[0, 0]],
            col_sigmoid_params = []\<rparr> :: (rat \<times> rat \<times> rat) vox_columns)"
    by (simp add: analyze_group_def voxel_scan_example fit_sigmoid_def no_columns_def)
  then show "analyze_group (\<lambda>xs ys p0. Inl RuntimeError) 10 20 5 1
       (0, [mk_loc 0 0 0, mk_loc 10 0 0, mk_loc 20 0 0]) no_columns
     = Inr (\<lparr>col_id = [0], col_total_locs = [3], col_clusters = [1],
            col_vox_bins = [[10, 15]], col_total_vol = [[3000, 6750]],
            col_total_surf = [[1400, 2250]],
            col_s_to_v = [[Stov (real_of_int 1400 / real_of_int 3000 powr (2 / 3)),
                           Stov (real_of_int 2250 / real_of_int 6750 powr (2 / 3))]],
            col_core_ratios = [[0, 0]],
            col_sigmoid_params = []\<rparr> :: (rat \<times> rat \<times> rat) vox_columns)" .
  show "analyze_vox_table (\<lambda>xs ys p0. Inl RuntimeError)
       [mk_loc 0 0 0, mk_loc 10 0 0, mk_loc 20 0 0] 10 20 5 1
     = (Inl ValueError :: error + (rat \<times> rat \<times> rat) vox_columns)"
    by (simp add: analyze_vox_table_def groupby_example g data_frame_of_def same_lengths_def)
qed

end
